theory Spec2Isabelle
  imports Complex_Main "HOL-Library.Word" "HOL-Library.Sublist"
begin

section \<open>JavaScript strings\<close>

text \<open>
  A JavaScript string is a sequence of UTF-16 code units; \<open>length\<close> counts code units and
  the regular expressions of the server (none has the \<open>u\<close> flag) work on code units too.
  \<open>js\<close> embeds an ASCII literal.
\<close>

type_synonym jschar = "16 word"
type_synonym jsstring = "jschar list"

definition js :: "string \<Rightarrow> jsstring" where
  "js s = map of_char s"

definition space :: jschar where "space = 0x20"
definition dollar :: jschar where "dollar = 0x24"
definition pound :: jschar where "pound = 0xA3"
definition euro :: jschar where "euro = 0x20AC"
definition dot :: jschar where "dot = 0x2E"
definition comma :: jschar where "comma = 0x2C"

definition is_space :: "jschar \<Rightarrow> bool" where
  \<comment> \<open>the class \<open>\s\<close> of a regular expression, which is also what \<open>trim\<close> strips:
      WhiteSpace and LineTerminator of ECMAScript\<close>
  "is_space c = (c \<in> set [0x09, 0x0A, 0x0B, 0x0C, 0x0D, 0x20, 0xA0, 0x1680,
       0x2000, 0x2001, 0x2002, 0x2003, 0x2004, 0x2005, 0x2006, 0x2007, 0x2008, 0x2009, 0x200A,
       0x2028, 0x2029, 0x202F, 0x205F, 0x3000, 0xFEFF])"

definition is_digit :: "jschar \<Rightarrow> bool" where
  \<comment> \<open>the class \<open>[0-9]\<close>\<close>
  "is_digit c = (0x30 \<le> c \<and> c \<le> 0x39)"

definition is_currency :: "jschar \<Rightarrow> bool" where
  \<comment> \<open>the first group: \<open>$\<close>, the euro sign U+20AC or the pound sign U+00A3\<close>
  "is_currency c = (c = dollar \<or> c = euro \<or> c = pound)"

definition is_sep :: "jschar \<Rightarrow> bool" where
  \<comment> \<open>the class \<open>[.,]\<close>\<close>
  "is_sep c = (c = dot \<or> c = comma)"

definition trim :: "jsstring \<Rightarrow> jsstring" where
  \<comment> \<open>\<open>String.prototype.trim\<close>\<close>
  "trim s = rev (dropWhile is_space (rev (dropWhile is_space s)))"

function collapse_ws :: "jsstring \<Rightarrow> jsstring" where
  \<comment> \<open>\<open>s.replace(/\s+/g, ' ')\<close>: every maximal run of white space becomes one space\<close>
  "collapse_ws [] = []"
| "collapse_ws (c # cs) =
     (if is_space c then space # collapse_ws (dropWhile is_space cs)
      else c # collapse_ws cs)"
  by pat_completeness auto
termination
  by (relation "measure length") (auto simp: less_Suc_eq_le length_dropWhile_le)

fun replace_first :: "jschar \<Rightarrow> jschar \<Rightarrow> jsstring \<Rightarrow> jsstring" where
  \<comment> \<open>\<open>s.replace(a, b)\<close> with one-character strings: only the first occurrence\<close>
  "replace_first a b [] = []"
| "replace_first a b (c # cs) = (if c = a then b # cs else c # replace_first a b cs)"

fun join :: "jsstring \<Rightarrow> jsstring list \<Rightarrow> jsstring" where
  \<comment> \<open>\<open>Array.prototype.join\<close> on an array of strings\<close>
  "join sep [] = []"
| "join sep [x] = x"
| "join sep (x # y # ys) = x @ sep @ join sep (y # ys)"

definition set_add :: "'a list \<Rightarrow> 'a \<Rightarrow> 'a list" where
  \<comment> \<open>\<open>Set.prototype.add\<close>: a Set keeps insertion order and ignores a value it holds\<close>
  "set_add seen x = (if x \<in> set seen then seen else seen @ [x])"

definition array_from_set :: "'a list \<Rightarrow> 'a list" where
  \<comment> \<open>\<open>Array.from(new Set(xs))\<close>: the first occurrence of every value, in order\<close>
  "array_from_set xs = foldl set_add [] xs"

section \<open>Price Extractor\<close>

text \<open>
  \<^verbatim>\<open>
  function parsePrice(text) {
    if (!text) return null;
    const priceRegex = /(\$|<U+20AC>|<U+00A3>)\s?([0-9]+(?:[.,][0-9]{2})?)/;
    const m = text.replace(/\s+/g, ' ').match(priceRegex);
    if (!m) return null;
    return `${m[1]}${m[2]}`.replace(',', '.');
  }
  \<close>
  The regular expression is modelled by the backtracking matcher it denotes:
  \<open>match_amount\<close> is the second group anchored at the head of its argument,
  \<open>match_here\<close> the whole expression anchored there, \<open>regex_search\<close> the leftmost match.
\<close>

definition match_amount :: "jsstring \<Rightarrow> jsstring option" where
  \<comment> \<open>\<open>[0-9]+(?:[.,][0-9]{2})?\<close>: the greedy digit run, then the greedy optional group;
      the group can match empty, so the digit run never gives a digit back\<close>
  "match_amount cs =
     (let ds = takeWhile is_digit cs; rest = dropWhile is_digit cs
      in if ds = [] then None
         else (case rest of
                 s # d1 # d2 # _ \<Rightarrow>
                   if is_sep s \<and> is_digit d1 \<and> is_digit d2 then Some (ds @ [s, d1, d2])
                   else Some ds
               | _ \<Rightarrow> Some ds))"

fun match_here :: "jsstring \<Rightarrow> (jschar \<times> jsstring) option" where
  \<comment> \<open>the groups \<open>m[1]\<close> and \<open>m[2]\<close> of a match that starts at the head; \<open>\s?\<close> is greedy
      and is given back when the amount does not follow\<close>
  "match_here [] = None"
| "match_here (c # cs) =
     (if is_currency c then
        (case (case cs of s # cs' \<Rightarrow> if is_space s then match_amount cs' else None
                        | [] \<Rightarrow> None) of
           Some a \<Rightarrow> Some (c, a)
         | None \<Rightarrow> (case match_amount cs of Some a \<Rightarrow> Some (c, a) | None \<Rightarrow> None))
      else None)"

fun regex_search :: "jsstring \<Rightarrow> (jschar \<times> jsstring) option" where
  "regex_search [] = None"
| "regex_search (c # cs) =
     (case match_here (c # cs) of Some m \<Rightarrow> Some m | None \<Rightarrow> regex_search cs)"

definition parsePrice :: "jsstring \<Rightarrow> jsstring option" where
  \<comment> \<open>\<open>None\<close> is \<open>null\<close>\<close>
  "parsePrice text =
     (if text = [] then None
      else (case regex_search (collapse_ws text) of
              None \<Rightarrow> None
            | Some (cur, amount) \<Rightarrow> Some (replace_first comma dot (cur # amount))))"

definition decimal_part :: "jsstring \<Rightarrow> jsstring" where
  \<comment> \<open>the decimal part of the result, read off the text that follows the digit run: a
      separator and two digits give a dot and the two digits, anything else gives nothing\<close>
  "decimal_part rest =
     (case rest of
        s # d1 # d2 # _ \<Rightarrow> if is_sep s \<and> is_digit d1 \<and> is_digit d2 then [dot, d1, d2] else []
      | _ \<Rightarrow> [])"

section \<open>Values, errors and exceptions\<close>

text \<open>
  A value as \<open>JSON.parse\<close> or a property read can give it. Only the truthiness of a number
  is ever looked at.
\<close>

datatype jsval =
    JUndefined
  | JNull
  | JBool bool
  | JNum real
  | JStr jsstring
  | JArr "jsval list"
  | JObj "(jsstring \<times> jsval) list"

fun truthy :: "jsval \<Rightarrow> bool" where
  "truthy JUndefined = False"
| "truthy JNull = False"
| "truthy (JBool b) = b"
| "truthy (JNum r) = (r \<noteq> 0)"
| "truthy (JStr s) = (s \<noteq> [])"
| "truthy (JArr xs) = True"
| "truthy (JObj kvs) = True"

text \<open>
  An exception object raised by a library (axios, cheerio): an \<open>Error\<close> with its class name
  and its message.
\<close>

record exn =
  exn_name :: jsstring
  exn_message :: jsstring

datatype error =
    TypeError                 \<comment> \<open>raised by the engine; its message is the engine's\<close>
  | ConfigError jsstring      \<comment> \<open>the \<open>new Error(...)\<close> of \<open>googleSearch\<close>\<close>
  | Upstream exn              \<comment> \<open>an exception of a network call, passed on\<close>

definition get_prop :: "jsval \<Rightarrow> jsstring \<Rightarrow> error + jsval" where
  \<comment> \<open>\<open>v.k\<close> for a key that no prototype defines: \<open>undefined\<close> unless \<open>v\<close> is an object
      that has it; reading a property of \<open>null\<close> or \<open>undefined\<close> raises\<close>
  "get_prop v k =
     (case v of
        JUndefined \<Rightarrow> Inl TypeError
      | JNull \<Rightarrow> Inl TypeError
      | JObj kvs \<Rightarrow> (case map_of kvs k of Some x \<Rightarrow> Inr x | None \<Rightarrow> Inr JUndefined)
      | _ \<Rightarrow> Inr JUndefined)"

section \<open>Note Extractor: normalization\<close>

text \<open>
  \<^verbatim>\<open>
  const norm = (arr) => Array.from(new Set((arr || []).map(s => s.toLowerCase().trim())))
                          .filter(Boolean).slice(0, 8);
  return { top: norm(parsed.top), middle: norm(parsed.middle), base: norm(parsed.base) };
  \<close>
  \<open>parsed\<close> is what the parsing cascade left: the value of \<open>JSON.parse\<close> or the object of
  the line heuristic. \<open>String.prototype.toLowerCase\<close> is the engine's Unicode lower-casing;
  it is the parameter \<open>lc\<close>. \<open>toLowerCase_ascii\<close> is what it does on ASCII text.
\<close>

record noteset =
  top :: "jsstring list option"
  middle :: "jsstring list option"
  base :: "jsstring list option"

definition lower_ascii :: "jschar \<Rightarrow> jschar" where
  "lower_ascii c = (if 0x41 \<le> c \<and> c \<le> 0x5A then c + 0x20 else c)"

definition toLowerCase_ascii :: "jsstring \<Rightarrow> jsstring" where
  "toLowerCase_ascii s = map lower_ascii s"

definition is_ascii :: "jsstring \<Rightarrow> bool" where
  "is_ascii s = list_all (\<lambda>c. c < 0x80) s"

fun lower_trim_all :: "(jsstring \<Rightarrow> jsstring) \<Rightarrow> jsval list \<Rightarrow> error + jsstring list" where
  \<comment> \<open>\<open>xs.map(s => s.toLowerCase().trim())\<close>: only a string has \<open>toLowerCase\<close>, on any
      other element the call raises\<close>
  "lower_trim_all lc [] = Inr []"
| "lower_trim_all lc (x # xs) =
     (case x of
        JStr s \<Rightarrow> (case lower_trim_all lc xs of
                     Inl e \<Rightarrow> Inl e
                   | Inr ys \<Rightarrow> Inr (trim (lc s) # ys))
      | _ \<Rightarrow> Inl TypeError)"

definition norm :: "(jsstring \<Rightarrow> jsstring) \<Rightarrow> jsval \<Rightarrow> error + jsstring list" where
  \<comment> \<open>a falsy \<open>arr\<close> is replaced by \<open>[]\<close>; a truthy value that is not an array has no
      \<open>map\<close>, and the call raises\<close>
  "norm lc arr =
     (case (if truthy arr then arr else JArr []) of
        JArr xs \<Rightarrow>
          (case lower_trim_all lc xs of
             Inl e \<Rightarrow> Inl e
           | Inr ys \<Rightarrow> Inr (take 8 (filter (\<lambda>s. s \<noteq> []) (array_from_set ys))))
      | _ \<Rightarrow> Inl TypeError)"

definition norm_bucket :: "(jsstring \<Rightarrow> jsstring) \<Rightarrow> jsval \<Rightarrow> string \<Rightarrow> error + jsstring list" where
  \<comment> \<open>\<open>norm(parsed.k)\<close>\<close>
  "norm_bucket lc parsed k =
     (case get_prop parsed (js k) of Inl e \<Rightarrow> Inl e | Inr arr \<Rightarrow> norm lc arr)"

definition normalize :: "(jsstring \<Rightarrow> jsstring) \<Rightarrow> jsval \<Rightarrow> error + noteset" where
  \<comment> \<open>the \<open>return\<close> of \<open>ollamaNotesFromScene\<close>; the three properties are evaluated in order\<close>
  "normalize lc parsed =
     (case norm_bucket lc parsed ''top'' of
        Inl e \<Rightarrow> Inl e
      | Inr t \<Rightarrow>
          (case norm_bucket lc parsed ''middle'' of
             Inl e \<Rightarrow> Inl e
           | Inr m \<Rightarrow>
               (case norm_bucket lc parsed ''base'' of
                  Inl e \<Rightarrow> Inl e
                | Inr b \<Rightarrow> Inr \<lparr>top = Some t, middle = Some m, base = Some b\<rparr>)))"

definition strings_of :: "jsval \<Rightarrow> jsstring list" where
  \<comment> \<open>the strings among the elements of an array\<close>
  "strings_of v = (case v of JArr xs \<Rightarrow> [s. JStr s \<leftarrow> xs] | _ \<Rightarrow> [])"

definition bucket_strings :: "jsval \<Rightarrow> string \<Rightarrow> jsstring list" where
  \<comment> \<open>the strings in the bucket \<open>k\<close> of \<open>parsed\<close>\<close>
  "bucket_strings parsed k =
     (case get_prop parsed (js k) of Inr v \<Rightarrow> strings_of v | Inl e \<Rightarrow> [])"

definition normalized_from :: "(jsstring \<Rightarrow> jsstring) \<Rightarrow> jsstring list \<Rightarrow> jsstring list \<Rightarrow> bool" where
  \<comment> \<open>the specification's normal form of a bucket: no duplicates, no empty string, at most
      8 entries, every entry the lower-cased and trimmed form of an input and itself trimmed;
      and nothing else is lost unless the cap is reached\<close>
  "normalized_from lc inputs out =
     (distinct out \<and> [] \<notin> set out \<and> length out \<le> 8 \<and>
      list_all (\<lambda>e. trim e = e \<and> e \<in> set (map (\<lambda>s. trim (lc s)) inputs)) out \<and>
      (length out = 8 \<or> list_all (\<lambda>s. trim (lc s) = [] \<or> trim (lc s) \<in> set out) inputs))"

definition parsed_object :: "jsstring list \<Rightarrow> jsstring list \<Rightarrow> jsstring list \<Rightarrow> jsval" where
  \<comment> \<open>an object with three arrays of strings, as the line heuristic builds it and as a
      reply that follows the prompt parses\<close>
  "parsed_object ts ms bs =
     JObj [(js ''top'', JArr (map JStr ts)), (js ''middle'', JArr (map JStr ms)),
           (js ''base'', JArr (map JStr bs))]"

section \<open>Query Synthesizer\<close>

text \<open>
  \<^verbatim>\<open>
  function buildPerfumeQueryFromNotes(notes) {
    const top = (notes.top || []).slice(0, 3).join(' ');
    const mid = (notes.middle || []).slice(0, 3).join(' ');
    const base = (notes.base || []).slice(0, 3).join(' ');
    let q = `${top} ${mid} ${base} perfume with price`.
      replace(/\s+/g, ' ').trim();
    if (q.length < 10) q = `${(notes.middle || notes.top || notes.base || []).join(' ')} perfume`;
    return q;
  }
  \<close>
  A bucket of the argument is missing (\<open>None\<close>) or an array of strings; an array is truthy
  even when it is empty.
\<close>

definition or_empty :: "'a list option \<Rightarrow> 'a list" where
  \<comment> \<open>\<open>xs || []\<close>\<close>
  "or_empty xs = (case xs of None \<Rightarrow> [] | Some ys \<Rightarrow> ys)"

definition first_query :: "noteset \<Rightarrow> jsstring" where
  \<comment> \<open>the first value of \<open>q\<close>\<close>
  "first_query n =
     (let t = join [space] (take 3 (or_empty (top n)));
          m = join [space] (take 3 (or_empty (middle n)));
          b = join [space] (take 3 (or_empty (base n)))
      in trim (collapse_ws (t @ [space] @ m @ [space] @ b @ js '' perfume with price'')))"

definition fallback_bucket :: "noteset \<Rightarrow> jsstring list" where
  \<comment> \<open>\<open>notes.middle || notes.top || notes.base || []\<close>\<close>
  "fallback_bucket n =
     (case middle n of
        Some m \<Rightarrow> m
      | None \<Rightarrow> (case top n of Some t \<Rightarrow> t | None \<Rightarrow> or_empty (base n)))"

definition buildPerfumeQueryFromNotes :: "noteset \<Rightarrow> jsstring" where
  "buildPerfumeQueryFromNotes n =
     (let q = first_query n
      in if length q < 10 then join [space] (fallback_bucket n) @ js '' perfume'' else q)"

definition is_note_set :: "noteset \<Rightarrow> bool" where
  \<comment> \<open>the Note Set of the data model: three buckets, every entry trimmed and not empty\<close>
  "is_note_set n =
     (case (top n, middle n, base n) of
        (Some t, Some m, Some b) \<Rightarrow> list_all (\<lambda>s. s \<noteq> [] \<and> trim s = s) (t @ m @ b)
      | _ \<Rightarrow> False)"

definition first_note :: "noteset \<Rightarrow> jsstring option" where
  \<comment> \<open>the first entry of the first bucket, in the order top, middle, base, that has one\<close>
  "first_note n =
     (case or_empty (top n) @ or_empty (middle n) @ or_empty (base n) of
        [] \<Rightarrow> None
      | s # _ \<Rightarrow> Some s)"

section \<open>Site-Restricted Search Client\<close>

text \<open>
  \<^verbatim>\<open>
  function buildSiteQuery(query) {
    if (!SEARCH_DOMAINS.length) return query;
    const sites = SEARCH_DOMAINS.map(d => `site:${d}`).join(' OR ');
    return `${query} (${sites})`;
  }

  async function googleSearch(query, num = 5) {
    if (!GOOGLE_API_KEY || !GOOGLE_CSE_CX) {
      throw new Error('Missing GOOGLE_API_KEY or GOOGLE_CSE_CX in environment.');
    }
    const q = buildSiteQuery(query);
    const { data } = await axios.get('https://www.googleapis.com/customsearch/v1', {
      params: { key: GOOGLE_API_KEY, cx: GOOGLE_CSE_CX, q, num, safe: 'active', lr: 'lang_en' },
      timeout: 20000
    });
    const items = (data.items || []).map(it => ({
      title: it.title, link: it.link, snippet: it.snippet }));
    return items;
  }
  \<close>
  The configuration is read from the environment once; a variable that is not set reads as
  the empty string. The network is a function from the request to an exception or the
  response; the requests issued so far are the state, so that "before any network call"
  can be said.
\<close>

record config =
  GOOGLE_API_KEY :: jsstring
  GOOGLE_CSE_CX :: jsstring
  SEARCH_DOMAINS :: "jsstring list"

record search_result =
  title :: jsstring
  link :: jsstring
  snippet :: jsstring

record search_request =
  endpoint :: jsstring
  key :: jsstring
  cx :: jsstring
  q :: jsstring
  num :: nat
  safe :: jsstring
  lr :: jsstring

record search_response =
  items :: "search_result list option"   \<comment> \<open>\<open>data.items\<close>, \<open>None\<close> when the key is missing\<close>

definition buildSiteQuery :: "config \<Rightarrow> jsstring \<Rightarrow> jsstring" where
  "buildSiteQuery cfg query =
     (if SEARCH_DOMAINS cfg = [] then query
      else query @ js '' ('' @
           join (js '' OR '') (map (\<lambda>d. js ''site:'' @ d) (SEARCH_DOMAINS cfg)) @ js '')'')"

definition missing_credentials :: jsstring where
  "missing_credentials = js ''Missing GOOGLE_API_KEY or GOOGLE_CSE_CX in environment.''"

definition googleSearch ::
  "config \<Rightarrow> (search_request \<Rightarrow> exn + search_response) \<Rightarrow> jsstring \<Rightarrow> nat \<Rightarrow>
   search_request list \<Rightarrow> (error + search_result list) \<times> search_request list" where
  "googleSearch cfg axios_get query n sent =
     (if GOOGLE_API_KEY cfg = [] \<or> GOOGLE_CSE_CX cfg = [] then
        (Inl (ConfigError missing_credentials), sent)
      else
        (let req = \<lparr>endpoint = js ''https://www.googleapis.com/customsearch/v1'',
                    key = GOOGLE_API_KEY cfg, cx = GOOGLE_CSE_CX cfg,
                    q = buildSiteQuery cfg query, num = n,
                    safe = js ''active'', lr = js ''lang_en''\<rparr>
         in (case axios_get req of
               Inl e \<Rightarrow> (Inl (Upstream e), sent @ [req])
             | Inr data \<Rightarrow>
                 (Inr (map (\<lambda>it. \<lparr>title = title it, link = link it, snippet = snippet it\<rparr>)
                         (or_empty (items data))),
                  sent @ [req]))))"

section \<open>Page Scraper\<close>

text \<open>
  \<^verbatim>\<open>
  async function scrapeBasic(url) {
    try {
      const { data, request } = await axios.get(url, { headers: ..., timeout: 15000,
        validateStatus: () => true });
      if (!data || typeof data !== 'string') {
        return { url, ok: false };
      }
      const $ = cheerioLoad(data);
      const title = $('meta[property="og:title"]').attr('content') || $('title').text().trim();
      const desc = $('meta[name="description"]').attr('content')
        || $('meta[property="og:description"]').attr('content') || '';
      let price = null;
      const candidates = [
        $('[itemprop="offers"]').text(),
        $('[itemprop="price"]').text(),
        $('[class*="price"]').first().text(),
        $('[id*="price"]').first().text(),
        $('body').text()
      ].filter(Boolean);
      for (const t of candidates) {
        const p = parsePrice(String(t));
        if (p) { price = p; break; }
      }
      let notes = [];
      const noteSelectors = [ ... ];
      for (const sel of noteSelectors) {
        $(sel).each((_, el) => {
          const t = $(el).text().trim();
          if (t && t.length < 60) notes.push(t);
        });
        if (notes.length) break;
      }
      notes = Array.from(new Set(notes)).slice(0, 20);
      return { url: request?.res?.responseUrl || url, ok: true, title, desc, price, notes };
    } catch (e) {
      return { url, ok: false, error: String(e?.message || e) };
    }
  }
  \<close>
  The HTTP client and the HTML library are external: \<open>axios_get\<close> gives an exception or
  the response of a URL, \<open>cheerioLoad\<close> gives an exception or the document of a text. A
  document is what the queries of \<open>scrapeBasic\<close> read from it.
\<close>

datatype resp_data =
    TextData jsstring    \<comment> \<open>\<open>typeof data === 'string'\<close>\<close>
  | NonTextData          \<comment> \<open>anything else: \<open>undefined\<close>, an object, a buffer\<close>

record response =
  data :: resp_data
  responseUrl :: "jsstring option"    \<comment> \<open>\<open>request?.res?.responseUrl\<close>\<close>




record page =
  og_title :: "jsstring option"          \<comment> \<open>\<open>$('meta[property="og:title"]').attr('content')\<close>\<close>
  title_text :: jsstring                 \<comment> \<open>\<open>$('title').text()\<close>\<close>
  meta_description :: "jsstring option"  \<comment> \<open>\<open>$('meta[name="description"]').attr('content')\<close>\<close>
  og_description :: "jsstring option"    \<comment> \<open>\<open>$('meta[property="og:description"]').attr('content')\<close>\<close>
  offers_text :: jsstring                \<comment> \<open>\<open>$('[itemprop="offers"]').text()\<close>\<close>
  price_text :: jsstring                 \<comment> \<open>\<open>$('[itemprop="price"]').text()\<close>\<close>
  class_price_text :: jsstring           \<comment> \<open>\<open>$('[class*="price"]').first().text()\<close>\<close>
  id_price_text :: jsstring              \<comment> \<open>\<open>$('[id*="price"]').first().text()\<close>\<close>
  body_text :: jsstring                  \<comment> \<open>\<open>$('body').text()\<close>\<close>
  element_texts :: "jsstring \<Rightarrow> jsstring list"
    \<comment> \<open>for a selector, \<open>$(el).text()\<close> of every element it matches, in document order\<close>

record scrape_result =
  url :: jsstring
  ok :: bool
  sr_title :: "jsstring option"
  desc :: "jsstring option"
  price :: "jsstring option"          \<comment> \<open>\<open>None\<close>: \<open>null\<close>, or the field is not there\<close>
  sr_notes :: "jsstring list option"
  error_text :: "jsstring option"     \<comment> \<open>the field \<open>error\<close>\<close>

definition or_else :: "jsstring option \<Rightarrow> jsstring \<Rightarrow> jsstring" where
  \<comment> \<open>\<open>a || b\<close> where \<open>a\<close> is a string or \<open>undefined\<close>\<close>
  "or_else a b = (case a of None \<Rightarrow> b | Some s \<Rightarrow> if s = [] then b else s)"

definition price_candidates :: "page \<Rightarrow> jsstring list" where
  "price_candidates pg =
     filter (\<lambda>t. t \<noteq> [])
       [offers_text pg, price_text pg, class_price_text pg, id_price_text pg, body_text pg]"

fun first_price :: "jsstring list \<Rightarrow> jsstring option" where
  \<comment> \<open>the loop over the candidates; \<open>if (p)\<close> skips \<open>null\<close> and the empty string\<close>
  "first_price [] = None"
| "first_price (t # ts) =
     (case parsePrice t of
        Some p \<Rightarrow> if p \<noteq> [] then Some p else first_price ts
      | None \<Rightarrow> first_price ts)"

definition scrape_price :: "page \<Rightarrow> jsstring option" where
  "scrape_price pg = first_price (price_candidates pg)"

definition noteSelectors :: "jsstring list" where
  "noteSelectors =
     [js ''div#pyramid div.pyramid__note'',
      js ''div#pyramid div.note'',
      js ''div.notes'',
      js ''div.accords'',
      js ''ul.notes li'',
      js ''div#notes li'',
      js ''div.basenotes'']"

definition kept_texts :: "page \<Rightarrow> jsstring \<Rightarrow> jsstring list" where
  \<comment> \<open>what the \<open>each\<close> of one selector pushes\<close>
  "kept_texts pg sel =
     filter (\<lambda>t. t \<noteq> [] \<and> length t < 60) (map trim (element_texts pg sel))"

fun collect_notes :: "page \<Rightarrow> jsstring list \<Rightarrow> jsstring list \<Rightarrow> jsstring list" where
  \<comment> \<open>the loop over the selectors, with the array \<open>notes\<close> as accumulator\<close>
  "collect_notes pg [] acc = acc"
| "collect_notes pg (sel # sels) acc =
     (let acc' = acc @ kept_texts pg sel
      in if acc' \<noteq> [] then acc' else collect_notes pg sels acc')"

definition scrape_notes :: "page \<Rightarrow> jsstring list" where
  "scrape_notes pg = take 20 (array_from_set (collect_notes pg noteSelectors []))"

definition scrape_body ::
  "(jsstring \<Rightarrow> exn + response) \<Rightarrow> (jsstring \<Rightarrow> exn + page) \<Rightarrow> jsstring \<Rightarrow>
   exn + scrape_result" where
  \<comment> \<open>the \<open>try\<close> block\<close>
  "scrape_body axios_get cheerioLoad u =
     (case axios_get u of
        Inl e \<Rightarrow> Inl e
      | Inr resp \<Rightarrow>
          (case data resp of
             NonTextData \<Rightarrow>
               Inr \<lparr>url = u, ok = False, sr_title = None, desc = None, price = None,
                    sr_notes = None, error_text = None\<rparr>
           | TextData d \<Rightarrow>
               if d = [] then
                 Inr \<lparr>url = u, ok = False, sr_title = None, desc = None, price = None,
                      sr_notes = None, error_text = None\<rparr>
               else
                 (case cheerioLoad d of
                    Inl e \<Rightarrow> Inl e
                  | Inr pg \<Rightarrow>
                      Inr \<lparr>url = or_else (responseUrl resp) u, ok = True,
                           sr_title = Some (or_else (og_title pg) (trim (title_text pg))),
                           desc = Some (or_else (meta_description pg)
                                          (or_else (og_description pg) [])),
                           price = scrape_price pg,
                           sr_notes = Some (scrape_notes pg),
                           error_text = None\<rparr>)))"

definition error_string :: "exn \<Rightarrow> jsstring" where
  \<comment> \<open>\<open>String(e?.message || e)\<close>: the message, or with an empty message
      \<open>Error.prototype.toString\<close>, which then is the name\<close>
  "error_string e = (if exn_message e \<noteq> [] then exn_message e else exn_name e)"

definition scrapeBasic ::
  "(jsstring \<Rightarrow> exn + response) \<Rightarrow> (jsstring \<Rightarrow> exn + page) \<Rightarrow> jsstring \<Rightarrow>
   exn + scrape_result" where
  \<comment> \<open>\<open>Inl\<close> is an exception that leaves the function\<close>
  "scrapeBasic axios_get cheerioLoad u =
     (case scrape_body axios_get cheerioLoad u of
        Inr r \<Rightarrow> Inr r
      | Inl e \<Rightarrow>
          Inr \<lparr>url = u, ok = False, sr_title = None, desc = None, price = None,
               sr_notes = None, error_text = Some (error_string e)\<rparr>)"

section \<open>Suggestion Assembler\<close>

text \<open>
  \<^verbatim>\<open>
  const scraped = await Promise.all(results.map(r => scrapeBasic(r.link)));
  const suggestions = results.map((r, i) => ({
    title: r.title,
    url: r.link,
    snippet: r.snippet,
    price: scraped[i]?.price || null,
    sourceTitle: scraped[i]?.title || null,
    notes: scraped[i]?.notes || []
  }));
  \<close>
\<close>

record suggestion =
  sg_title :: jsstring
  sg_url :: jsstring
  sg_snippet :: jsstring
  sg_price :: "jsstring option"
  sourceTitle :: "jsstring option"
  sg_notes :: "jsstring list"

fun promise_all :: "('e + 'a) list \<Rightarrow> 'e + 'a list" where
  \<comment> \<open>\<open>Promise.all\<close>: rejected as soon as one promise is, else the values in input order\<close>
  "promise_all [] = Inr []"
| "promise_all (p # ps) =
     (case p of
        Inl e \<Rightarrow> Inl e
      | Inr v \<Rightarrow> (case promise_all ps of Inl e \<Rightarrow> Inl e | Inr vs \<Rightarrow> Inr (v # vs)))"

definition or_null :: "jsstring option \<Rightarrow> jsstring option" where
  \<comment> \<open>\<open>x || null\<close>: \<open>undefined\<close>, \<open>null\<close> and the empty string give \<open>null\<close>\<close>
  "or_null x = (case x of None \<Rightarrow> None | Some s \<Rightarrow> if s = [] then None else Some s)"

definition index_opt :: "'a list \<Rightarrow> nat \<Rightarrow> 'a option" where
  \<comment> \<open>\<open>xs[i]\<close>, \<open>undefined\<close> out of range\<close>
  "index_opt xs i = (if i < length xs then Some (xs ! i) else None)"

definition assemble :: "search_result \<Rightarrow> scrape_result option \<Rightarrow> suggestion" where
  "assemble r s =
     \<lparr>sg_title = title r, sg_url = link r, sg_snippet = snippet r,
      sg_price = or_null (case s of None \<Rightarrow> None | Some x \<Rightarrow> price x),
      sourceTitle = or_null (case s of None \<Rightarrow> None | Some x \<Rightarrow> sr_title x),
      sg_notes = or_empty (case s of None \<Rightarrow> None | Some x \<Rightarrow> sr_notes x)\<rparr>"

definition suggestions :: "search_result list \<Rightarrow> scrape_result list \<Rightarrow> suggestion list" where
  "suggestions results scraped =
     map (\<lambda>(i, r). assemble r (index_opt scraped i)) (enumerate 0 results)"

definition scrape_and_assemble ::
  "(jsstring \<Rightarrow> exn + response) \<Rightarrow> (jsstring \<Rightarrow> exn + page) \<Rightarrow> search_result list \<Rightarrow>
   exn + suggestion list" where
  "scrape_and_assemble axios_get cheerioLoad results =
     (case promise_all (map (\<lambda>r. scrapeBasic axios_get cheerioLoad (link r)) results) of
        Inl e \<Rightarrow> Inl e
      | Inr scraped \<Rightarrow> Inr (suggestions results scraped))"

section \<open>The specification's wording of the scraper and the assembler\<close>

text \<open>
  These definitions follow the specification, not the code; the theorems below compare
  the code with them.
\<close>

fun starts_price :: "jsstring \<Rightarrow> bool" where
  \<comment> \<open>a price starts at the head of the text: a currency sign, then white space or
      nothing, then a digit\<close>
  "starts_price [] = False"
| "starts_price (c # cs) =
     (is_currency c \<and> (case dropWhile is_space cs of [] \<Rightarrow> False | d # _ \<Rightarrow> is_digit d))"

fun holds_price :: "jsstring \<Rightarrow> bool" where
  \<comment> \<open>a price starts somewhere in the text\<close>
  "holds_price [] = False"
| "holds_price (c # cs) = (starts_price (c # cs) \<or> holds_price cs)"

definition price_in_order :: "page \<Rightarrow> jsstring option" where
  \<comment> \<open>the Price Extractor over the five candidates in order, the first result that is
      not absent\<close>
  "price_in_order pg =
     (case parsePrice (offers_text pg) of Some p \<Rightarrow> Some p | None \<Rightarrow>
     (case parsePrice (price_text pg) of Some p \<Rightarrow> Some p | None \<Rightarrow>
     (case parsePrice (class_price_text pg) of Some p \<Rightarrow> Some p | None \<Rightarrow>
     (case parsePrice (id_price_text pg) of Some p \<Rightarrow> Some p | None \<Rightarrow>
      parsePrice (body_text pg)))))"


definition notes_first_matching :: "page \<Rightarrow> jsstring list" where
  \<comment> \<open>the notes taken from the first selector that matches at least one element\<close>
  "notes_first_matching pg =
     take 20 (array_from_set
       (case find (\<lambda>sel. element_texts pg sel \<noteq> []) noteSelectors of
          None \<Rightarrow> []
        | Some sel \<Rightarrow> kept_texts pg sel))"

definition notes_first_kept :: "page \<Rightarrow> jsstring list" where
  \<comment> \<open>the notes taken from the first selector of which at least one text is kept\<close>
  "notes_first_kept pg =
     take 20 (array_from_set
       (case find (\<lambda>sel. kept_texts pg sel \<noteq> []) noteSelectors of
          None \<Rightarrow> []
        | Some sel \<Rightarrow> kept_texts pg sel))"

definition carries_scrape :: "suggestion \<Rightarrow> search_result \<Rightarrow> scrape_result \<Rightarrow> bool" where
  \<comment> \<open>title, url and snippet of the search result; price, notes and sourceTitle of the
      scrape result, or absent, absent and empty when the scrape failed\<close>
  "carries_scrape g r s =
     (sg_title g = title r \<and> sg_url g = link r \<and> sg_snippet g = snippet r \<and>
      (if ok s then sg_price g = price s \<and> Some (sg_notes g) = sr_notes s \<and>
                    sourceTitle g = sr_title s
       else sg_price g = None \<and> sg_notes g = [] \<and> sourceTitle g = None))"

definition carries_scrape_titled :: "suggestion \<Rightarrow> search_result \<Rightarrow> scrape_result \<Rightarrow> bool" where
  \<comment> \<open>the same, but an empty scraped title is carried as an absent sourceTitle\<close>
  "carries_scrape_titled g r s =
     (sg_title g = title r \<and> sg_url g = link r \<and> sg_snippet g = snippet r \<and>
      (if ok s then sg_price g = price s \<and> Some (sg_notes g) = sr_notes s \<and>
                    sourceTitle g = (if sr_title s = Some [] then None else sr_title s)
       else sg_price g = None \<and> sg_notes g = [] \<and> sourceTitle g = None))"

section \<open>Example inputs\<close>

definition serve :: "jsstring \<Rightarrow> jsstring \<Rightarrow> exn + response" where
  \<comment> \<open>a network on which every URL answers with the same text\<close>
  "serve body u = Inr \<lparr>data = TextData body, responseUrl = None\<rparr>"

definition refused :: exn where
  "refused = \<lparr>exn_name = js ''AxiosError'', exn_message = js ''connect ECONNREFUSED''\<rparr>"

definition flaky :: "jsstring \<Rightarrow> exn + response" where
  \<comment> \<open>a network on which one host refuses the connection\<close>
  "flaky u = (if u = js ''http://down'' then Inl refused
              else Inr \<lparr>data = TextData (js ''<html>''), responseUrl = None\<rparr>)"

definition parsed_as :: "page \<Rightarrow> jsstring \<Rightarrow> exn + page" where
  "parsed_as pg d = Inr pg"

definition blank_page :: page where
  \<comment> \<open>a document without title, metadata, price or notes\<close>
  "blank_page =
     \<lparr>og_title = None, title_text = [], meta_description = None, og_description = None,
      offers_text = [], price_text = [], class_price_text = [], id_price_text = [],
      body_text = [], element_texts = (\<lambda>sel. [])\<rparr>"

definition shop_page :: page where
  \<comment> \<open>a product page: social-preview title \<open>X\<close>, an element of class \<open>price\<close> with
      \<open>$20\<close>, a list of notes\<close>
  "shop_page =
     \<lparr>og_title = Some (js ''X''), title_text = js ''X - shop'', meta_description = None,
      og_description = None, offers_text = [], price_text = [],
      class_price_text = js ''$20'', id_price_text = [],
      body_text = js ''X $20 shipping $5 rose musk rose'',
      element_texts = (\<lambda>sel. if sel = js ''ul.notes li''
                             then [js ''rose'', js '' musk '', js ''rose''] else [])\<rparr>"

definition container_page :: page where
  \<comment> \<open>\<open>div.notes\<close> matches one container, whose text has 60 characters or more;
      \<open>ul.notes li\<close> matches the two notes in it\<close>
  "container_page =
     \<lparr>og_title = None, title_text = [], meta_description = None, og_description = None,
      offers_text = [], price_text = [], class_price_text = [], id_price_text = [],
      body_text = [],
      element_texts = (\<lambda>sel.
        if sel = js ''div.notes''
        then [js ''Top notes: bergamot, lemon. Heart notes: rose. Base notes: musk, amber.'']
        else if sel = js ''ul.notes li'' then [js ''rose'', js ''musk''] else [])\<rparr>"





definition hit :: "string \<Rightarrow> string \<Rightarrow> search_result" where
  \<comment> \<open>a search result with the given title and link\<close>
  "hit t l = \<lparr>title = js t, link = js l, snippet = js ''...''\<rparr>"

definition batch :: "search_result list" where
  \<comment> \<open>six search results, two of them on the host that refuses the connection\<close>
  "batch = [hit ''A'' ''http://a'', hit ''B'' ''http://down'', hit ''C'' ''http://c'',
            hit ''D'' ''http://d'', hit ''E'' ''http://down'', hit ''F'' ''http://f'']"

definition with_keys :: config where
  "with_keys = \<lparr>GOOGLE_API_KEY = js ''key'', GOOGLE_CSE_CX = js ''cx'',
                SEARCH_DOMAINS = [js ''fragrantica.com'', js ''parfumo.net'']\<rparr>"

definition without_cx :: config where
  "without_cx = \<lparr>GOOGLE_API_KEY = js ''key'', GOOGLE_CSE_CX = [],
                 SEARCH_DOMAINS = [js ''fragrantica.com'', js ''parfumo.net'']\<rparr>"

definition one_hit :: "search_request \<Rightarrow> exn + search_response" where
  \<comment> \<open>a search service that answers every request with one item\<close>
  "one_hit req = Inr \<lparr>items = Some [hit ''A'' ''http://a'']\<rparr>"

section \<open>Facts about strings\<close>

lemma js_simps [simp]: "js [] = []" "js (c # cs) = of_char c # js cs"
  by (simp_all add: js_def)

lemmas char_defs = space_def dollar_def pound_def euro_def dot_def comma_def
  is_space_def is_digit_def is_currency_def is_sep_def

lemma digit_not_space: "is_digit c \<Longrightarrow> \<not> is_space c"
  by (auto simp: is_digit_def is_space_def)

lemma currency_not_space: "is_currency c \<Longrightarrow> \<not> is_space c"
  by (auto simp: char_defs)

lemma currency_not_digit: "is_currency c \<Longrightarrow> \<not> is_digit c"
  by (auto simp: char_defs)

lemma sep_not_space: "is_sep c \<Longrightarrow> \<not> is_space c"
  by (auto simp: char_defs)

lemma space_is_space: "is_space space"
  by (simp add: char_defs)

lemma digit_not_comma: "is_digit c \<Longrightarrow> c \<noteq> comma"
  by (auto simp: char_defs)

lemma currency_not_comma: "is_currency c \<Longrightarrow> c \<noteq> comma"
  by (auto simp: char_defs)

lemma collapse_ws_nonspace_append:
  "\<not> is_space c \<Longrightarrow> collapse_ws (xs @ c # ys) = collapse_ws xs @ c # collapse_ws ys"
proof (induction xs rule: collapse_ws.induct)
  case 1
  then show ?case by simp
next
  case (2 x xs)
  show ?case
  proof (cases "is_space x")
    case True
    show ?thesis
    proof (cases "\<forall>y\<in>set xs. is_space y")
      case all: True
      have d1: "dropWhile is_space (xs @ c # ys) = c # ys"
        using all 2(3) by (simp add: dropWhile_append2)
      have d2: "dropWhile is_space xs = []"
        using all by simp
      show ?thesis by (simp add: True d1 d2 2(3))
    next
      case False
      then have "dropWhile is_space (xs @ c # ys) = dropWhile is_space xs @ c # ys"
        by (metis dropWhile_append1)
      then show ?thesis using True 2(1)[OF True 2(3)] by simp
    qed
  next
    case False
    then show ?thesis using 2(2)[OF False 2(3)] by simp
  qed
qed

lemma collapse_ws_nonspace: "\<forall>c\<in>set xs. \<not> is_space c \<Longrightarrow> collapse_ws (xs @ ys) = xs @ collapse_ws ys"
  by (induction xs) auto

lemma collapse_ws_spaces:
  "sp \<noteq> [] \<Longrightarrow> \<forall>c\<in>set sp. is_space c \<Longrightarrow> \<not> is_space c \<Longrightarrow>
   collapse_ws (sp @ c # ys) = space # c # collapse_ws ys"
  by (cases sp) (auto simp: dropWhile_append2)

lemma set_collapse_ws: "set (collapse_ws xs) \<subseteq> insert space (set xs)"
proof (induction xs rule: collapse_ws.induct)
  case 1 show ?case by simp
next
  case (2 c cs)
  have "set (dropWhile is_space cs) \<subseteq> set cs" by (simp add: set_dropWhileD subsetI)
  with 2 show ?case by (cases "is_space c") auto
qed

lemma match_amount_None: "match_amount cs = None \<longleftrightarrow> (cs = [] \<or> \<not> is_digit (hd cs))"
  by (cases cs) (auto simp: match_amount_def Let_def split: list.splits)

section \<open>Facts about the scraper\<close>

lemma parsePrice_nonempty: "parsePrice t = Some p \<Longrightarrow> p \<noteq> []"
  by (auto simp: parsePrice_def split: if_splits option.splits)

lemma parsePrice_Nil: "parsePrice [] = None"
  by (simp add: parsePrice_def)

lemma first_price_Cons:
  "first_price (t # ts) = (case parsePrice t of Some p \<Rightarrow> Some p | None \<Rightarrow> first_price ts)"
  using parsePrice_nonempty[of t] by (auto split: option.splits)

lemma first_price_filter: "first_price (filter (\<lambda>t. t \<noteq> []) ts) = first_price ts"
  by (induction ts) (auto simp: parsePrice_Nil split: option.splits)

lemma scrape_price_in_order: "scrape_price pg = price_in_order pg"
  unfolding scrape_price_def price_candidates_def first_price_filter price_in_order_def
  by (simp only: first_price_Cons first_price.simps(1) split: option.splits) (auto split: option.splits)

lemma scrapeBasic_ok:
  assumes "axios_get u = Inr resp" "data resp = TextData d" "d \<noteq> []" "cheerioLoad d = Inr pg"
  shows "scrapeBasic axios_get cheerioLoad u =
     Inr \<lparr>url = or_else (responseUrl resp) u, ok = True,
          sr_title = Some (or_else (og_title pg) (trim (title_text pg))),
          desc = Some (or_else (meta_description pg) (or_else (og_description pg) [])),
          price = scrape_price pg, sr_notes = Some (scrape_notes pg), error_text = None\<rparr>"
  using assms by (simp add: scrapeBasic_def scrape_body_def)



lemma scrapeBasic_returns: "\<exists>r. scrapeBasic axios_get cheerioLoad u = Inr r"
  by (simp add: scrapeBasic_def split: sum.splits)

lemma collect_notes_find:
  "collect_notes pg sels [] =
     (case find (\<lambda>sel. kept_texts pg sel \<noteq> []) sels of None \<Rightarrow> [] | Some sel \<Rightarrow> kept_texts pg sel)"
  by (induction sels) (auto simp: Let_def)

lemma scrape_notes_first_kept: "scrape_notes pg = notes_first_kept pg"
  by (simp add: scrape_notes_def notes_first_kept_def collect_notes_find)

section \<open>Facts about the price pattern\<close>

lemma replace_first_notin: "a \<notin> set xs \<Longrightarrow> replace_first a b (xs @ ys) = xs @ replace_first a b ys"
  by (induction xs) auto

lemma takeWhile_digits:
  "\<forall>d\<in>set ds. is_digit d \<Longrightarrow> rest = [] \<or> \<not> is_digit (hd rest) \<Longrightarrow>
   takeWhile is_digit (ds @ rest) = ds \<and> dropWhile is_digit (ds @ rest) = rest"
  by (cases rest) (auto simp: takeWhile_append2 dropWhile_append2)

lemma amount_ok:
  assumes "is_currency cur" "ds \<noteq> []" "\<forall>d\<in>set ds. is_digit d" "rest = [] \<or> \<not> is_digit (hd rest)"
  shows "\<exists>a. match_amount (ds @ rest) = Some a \<and>
             replace_first comma dot (cur # a) = cur # ds @ decimal_part rest"
proof -
  have tk: "takeWhile is_digit (ds @ rest) = ds" "dropWhile is_digit (ds @ rest) = rest"
    using takeWhile_digits[OF assms(3,4)] by simp_all
  have nc: "comma \<notin> set ds" using assms(3) digit_not_comma by blast
  have cc: "cur \<noteq> comma" using assms(1) currency_not_comma by blast
  have r1: "replace_first comma dot (cur # ds @ ys) = cur # ds @ replace_first comma dot ys" for ys
    using cc replace_first_notin[OF nc] by simp
  show ?thesis
  proof (cases "\<exists>s d1 d2 r. rest = s # d1 # d2 # r \<and> is_sep s \<and> is_digit d1 \<and> is_digit d2")
    case True
    then obtain s d1 d2 r where r: "rest = s # d1 # d2 # r" "is_sep s" "is_digit d1" "is_digit d2"
      by blast
    have m: "match_amount (ds @ rest) = Some (ds @ [s, d1, d2])"
      unfolding match_amount_def tk Let_def using assms(2) r by simp
    have "replace_first comma dot [s, d1, d2] = [dot, d1, d2]"
      using r digit_not_comma[OF r(3)] digit_not_comma[OF r(4)] by (auto simp: is_sep_def)
    then show ?thesis using m r r1[of "[s, d1, d2]"] by (simp add: decimal_part_def)
  next
    case False
    have m: "match_amount (ds @ rest) = Some ds"
      unfolding match_amount_def tk Let_def using assms(2) False by (auto split: list.splits)
    have "decimal_part rest = []"
      using False by (auto simp: decimal_part_def split: list.splits)
    then show ?thesis using m r1[of "[]"] by simp
  qed
qed

lemma match_here_price:
  assumes "is_currency cur" "sp = [] \<or> sp = [space]" "match_amount cs = Some a"
  shows "match_here (cur # sp @ cs) = Some (cur, a)"
proof -
  from assms(3) have "cs \<noteq> [] \<and> is_digit (hd cs)"
    using match_amount_None[of cs] by auto
  then obtain d cs' where cs: "cs = d # cs'" "is_digit d" by (cases cs) auto
  from assms(2) show ?thesis
  proof
    assume "sp = []"
    then show ?thesis using assms(1,3) cs digit_not_space[OF cs(2)] by simp
  next
    assume "sp = [space]"
    then show ?thesis using assms(1,3) space_is_space by simp
  qed
qed

lemma match_amount_append_None:
  "match_amount p = None \<Longrightarrow> is_currency cur \<Longrightarrow> match_amount (p @ cur # xs) = None"
  using currency_not_digit[of cur] by (cases p) (auto simp: match_amount_None)

lemma match_here_append_None:
  assumes "match_here p = None" "is_currency cur" "p \<noteq> []"
  shows "match_here (p @ cur # xs) = None"
proof -
  obtain c cs where p: "p = c # cs" using assms(3) by (cases p) auto
  show ?thesis
  proof (cases "is_currency c")
    case False
    then show ?thesis by (simp add: p)
  next
    case True
    from assms(1) have a1: "match_amount cs = None"
      using True by (auto simp: p split: option.splits)
    show ?thesis
    proof (cases cs)
      case Nil
      then show ?thesis
        using True currency_not_space[OF assms(2)] match_amount_append_None[OF a1 assms(2), of xs]
        by (simp add: p)
    next
      case (Cons s cs')
      have a2: "is_space s \<Longrightarrow> match_amount cs' = None"
        using assms(1) True by (auto simp: p Cons split: option.splits if_splits)
      show ?thesis
        using True match_amount_append_None[OF a1 assms(2), of xs]
              match_amount_append_None[OF a2 assms(2), of xs]
        by (simp add: p Cons)
    qed
  qed
qed

lemma regex_search_skip:
  "regex_search pre = None \<Longrightarrow> is_currency cur \<Longrightarrow>
   regex_search (pre @ cur # xs) = regex_search (cur # xs)"
proof (induction pre)
  case Nil
  then show ?case by simp
next
  case (Cons c pre)
  from Cons.prems(1) have m: "match_here (c # pre) = None" and r: "regex_search pre = None"
    by (auto split: option.splits)
  have "match_here ((c # pre) @ cur # xs) = None"
    using match_here_append_None[OF m Cons.prems(2)] by simp
  then show ?case using Cons.IH[OF r Cons.prems(2)] by simp
qed

lemma prefix_collapse_ws:
  "\<forall>c\<in>set p. \<not> is_space c \<Longrightarrow> prefix p (collapse_ws t) \<longleftrightarrow> prefix p t"
proof (induction p arbitrary: t)
  case Nil
  then show ?case by simp
next
  case (Cons c p)
  show ?case
  proof (cases t)
    case Nil
    then show ?thesis by simp
  next
    case (Cons x t')
    show ?thesis
    proof (cases "is_space x")
      case True
      then show ?thesis using Cons.prems space_is_space by (auto simp: Cons)
    next
      case False
      then show ?thesis using Cons.IH[of t'] Cons.prems by (simp add: Cons)
    qed
  qed
qed

lemma decimal_part_prefix:
  "decimal_part xs =
     (if \<exists>s d1 d2. is_sep s \<and> is_digit d1 \<and> is_digit d2 \<and> prefix [s, d1, d2] xs
      then [dot, xs ! 1, xs ! 2] else [])"
  by (auto simp: decimal_part_def prefix_def split: list.splits)

lemma decimal_part_collapse_ws: "decimal_part (collapse_ws rest) = decimal_part rest"
proof (cases "\<exists>s d1 d2 r. rest = s # d1 # d2 # r \<and> is_sep s \<and> is_digit d1 \<and> is_digit d2")
  case True
  then obtain s d1 d2 r where r: "rest = s # d1 # d2 # r" "is_sep s" "is_digit d1" "is_digit d2"
    by blast
  then show ?thesis
    using sep_not_space[OF r(2)] digit_not_space[OF r(3)] digit_not_space[OF r(4)]
    by (simp add: decimal_part_def)
next
  case False
  have n: "\<not> (\<exists>s d1 d2. is_sep s \<and> is_digit d1 \<and> is_digit d2 \<and> prefix [s, d1, d2] rest)"
    using False by (auto simp: prefix_def)
  have m: "\<not> (\<exists>s d1 d2. is_sep s \<and> is_digit d1 \<and> is_digit d2 \<and>
            prefix [s, d1, d2] (collapse_ws rest))"
  proof
    assume "\<exists>s d1 d2. is_sep s \<and> is_digit d1 \<and> is_digit d2 \<and> prefix [s, d1, d2] (collapse_ws rest)"
    then obtain s d1 d2 where h: "is_sep s" "is_digit d1" "is_digit d2"
      "prefix [s, d1, d2] (collapse_ws rest)" by blast
    have "\<forall>c\<in>set [s, d1, d2]. \<not> is_space c"
      using sep_not_space[OF h(1)] digit_not_space[OF h(2)] digit_not_space[OF h(3)] by simp
    then have "prefix [s, d1, d2] rest" using prefix_collapse_ws h(4) by blast
    then show False using n h by blast
  qed
  have "decimal_part rest = []"
    by (simp only: decimal_part_prefix[of rest] n if_False)
  moreover have "decimal_part (collapse_ws rest) = []"
    by (simp only: decimal_part_prefix[of "collapse_ws rest"] m if_False)
  ultimately show ?thesis by simp
qed

lemma hd_collapse_ws_digit:
  "rest = [] \<or> \<not> is_digit (hd rest) \<Longrightarrow>
   collapse_ws rest = [] \<or> \<not> is_digit (hd (collapse_ws rest))"
  using digit_not_space[of space] space_is_space by (cases rest) auto

lemma parsePrice_None_iff: "parsePrice t = None \<longleftrightarrow> regex_search (collapse_ws t) = None"
  by (cases t) (auto simp: parsePrice_def split: option.splits)

lemma parsePrice_first:
  assumes "parsePrice pre = None" "is_currency cur" "\<forall>c\<in>set sp. is_space c"
    "ds \<noteq> []" "\<forall>d\<in>set ds. is_digit d" "rest = [] \<or> \<not> is_digit (hd rest)"
  shows "parsePrice (pre @ cur # sp @ ds @ rest) = Some (cur # ds @ decimal_part rest)"
proof -
  obtain d ds' where ds: "ds = d # ds'" using assms(4) by (cases ds) auto
  have nsp: "\<forall>c\<in>set ds. \<not> is_space c" using assms(5) digit_not_space by blast
  define sp' where "sp' = (if sp = [] then [] else [space])"
  have c1: "collapse_ws (sp @ ds @ rest) = sp' @ ds @ collapse_ws rest"
  proof (cases "sp = []")
    case True
    then show ?thesis using collapse_ws_nonspace[OF nsp] by (simp add: sp'_def)
  next
    case False
    have "\<not> is_space d" using nsp ds by simp
    then have "collapse_ws (sp @ d # (ds' @ rest)) = space # d # collapse_ws (ds' @ rest)"
      using collapse_ws_spaces[OF False assms(3)] by blast
    moreover have "d # collapse_ws (ds' @ rest) = ds @ collapse_ws rest"
      using collapse_ws_nonspace[of ds' rest] nsp ds by simp
    ultimately show ?thesis using False by (simp add: sp'_def ds)
  qed
  have c2: "collapse_ws (pre @ cur # sp @ ds @ rest) =
            collapse_ws pre @ cur # sp' @ ds @ collapse_ws rest"
    using collapse_ws_nonspace_append[OF currency_not_space[OF assms(2)]] c1 by simp
  have s1: "regex_search (collapse_ws pre) = None"
    using assms(1) parsePrice_None_iff by blast
  obtain a where a: "match_amount (ds @ collapse_ws rest) = Some a"
      "replace_first comma dot (cur # a) = cur # ds @ decimal_part (collapse_ws rest)"
    using amount_ok[OF assms(2,4,5) hd_collapse_ws_digit[OF assms(6)]] by blast
  have "match_here (cur # sp' @ ds @ collapse_ws rest) = Some (cur, a)"
    using match_here_price[OF assms(2) _ a(1)] by (simp add: sp'_def)
  then have "regex_search (collapse_ws (pre @ cur # sp @ ds @ rest)) = Some (cur, a)"
    using regex_search_skip[OF s1 assms(2)] c2 by simp
  then show ?thesis
    using a(2) by (simp add: parsePrice_def decimal_part_collapse_ws)
qed

lemma parsePrice_no_currency:
  assumes "\<forall>c\<in>set t. \<not> is_currency c"
  shows "parsePrice t = None"
proof -
  have "\<forall>c\<in>set xs. \<not> is_currency c \<Longrightarrow> regex_search xs = None" for xs
    by (induction xs) auto
  moreover have "\<forall>c\<in>set (collapse_ws t). \<not> is_currency c"
    using assms set_collapse_ws[of t] currency_not_space[of space] space_is_space by auto
  ultimately show ?thesis using parsePrice_None_iff by blast
qed

section \<open>Facts about where a price starts\<close>

lemma dropWhile_Cons_append: "dropWhile P p = d # r \<Longrightarrow> dropWhile P (p @ ys) = d # r @ ys"
  by (induction p) (auto split: if_splits)

lemma starts_price_mono:
  assumes "starts_price (c # p)"
  shows "starts_price (c # p @ ys)"
proof -
  from assms obtain d r where "dropWhile is_space p = d # r" "is_digit d" "is_currency c"
    by (auto split: list.splits)
  then show ?thesis using dropWhile_Cons_append[of is_space p d r ys] by simp
qed

lemma holds_price_dropWhile: "holds_price (dropWhile is_space xs) = holds_price xs"
  using currency_not_space by (induction xs) auto

lemma hd_collapse_ws_nonspace_head:
  assumes "D = [] \<or> \<not> is_space (hd D)"
  shows "(collapse_ws D \<noteq> [] \<and> is_digit (hd (collapse_ws D))) \<longleftrightarrow> (D \<noteq> [] \<and> is_digit (hd D))"
  using assms by (cases D) auto

lemma case_hd: "(case D of [] \<Rightarrow> False | d # r \<Rightarrow> P d) \<longleftrightarrow> (D \<noteq> [] \<and> P (hd D))"
  by (cases D) auto

lemma match_here_collapse:
  "match_here (c # collapse_ws cs) = None \<longleftrightarrow> \<not> starts_price (c # cs)"
proof (cases "is_currency c")
  case False
  then show ?thesis by simp
next
  case cur: True
  show ?thesis
  proof (cases cs)
    case Nil
    then show ?thesis using cur by (simp add: match_amount_def)
  next
    case (Cons x xs)
    show ?thesis
    proof (cases "is_space x")
      case True
      let ?D = "dropWhile is_space xs"
      have D: "?D = [] \<or> \<not> is_space (hd ?D)" by (metis hd_dropWhile)
      have sd: "\<not> is_digit space" using digit_not_space space_is_space by blast
      have cw: "collapse_ws cs = space # collapse_ws ?D" using True by (simp add: Cons)
      have ma: "match_amount (space # collapse_ws ?D) = None"
        using sd by (simp add: match_amount_None)
      have "match_here (c # space # collapse_ws ?D) =
            (case match_amount (collapse_ws ?D) of Some a \<Rightarrow> Some (c, a) | None \<Rightarrow> None)"
        using cur space_is_space ma by (simp split: option.splits)
      then have "match_here (c # collapse_ws cs) = None \<longleftrightarrow> match_amount (collapse_ws ?D) = None"
        unfolding cw by (simp split: option.splits)
      also have "\<dots> \<longleftrightarrow> \<not> (?D \<noteq> [] \<and> is_digit (hd ?D))"
        using hd_collapse_ws_nonspace_head[OF D] by (simp only: match_amount_None) blast
      also have "\<dots> \<longleftrightarrow> \<not> starts_price (c # cs)"
        using cur True by (simp add: Cons case_hd[where D = ?D])
      finally show ?thesis .
    next
      case False
      have m: "match_amount (x # collapse_ws xs) = None \<longleftrightarrow> \<not> is_digit x"
        by (simp add: match_amount_None)
      have "match_here (c # x # collapse_ws xs) = None \<longleftrightarrow>
            match_amount (x # collapse_ws xs) = None"
        using cur False by (simp split: option.splits)
      then show ?thesis using cur False m by (simp add: Cons)
    qed
  qed
qed

lemma regex_search_space: "regex_search (space # xs) = regex_search xs"
  using currency_not_space[of space] space_is_space by auto

lemma regex_search_collapse: "regex_search (collapse_ws t) = None \<longleftrightarrow> \<not> holds_price t"
proof (induction t rule: collapse_ws.induct)
  case 1
  then show ?case by simp
next
  case (2 c cs)
  show ?case
  proof (cases "is_space c")
    case True
    have ns: "\<not> starts_price (c # cs)" using True currency_not_space by auto
    have "collapse_ws (c # cs) = space # collapse_ws (dropWhile is_space cs)"
      using True by simp
    then have "regex_search (collapse_ws (c # cs)) =
               regex_search (collapse_ws (dropWhile is_space cs))"
      by (simp only: regex_search_space)
    moreover have "holds_price (c # cs) = holds_price (dropWhile is_space cs)"
      using ns holds_price_dropWhile[of cs] by (simp del: starts_price.simps)
    ultimately show ?thesis using 2(1)[OF True] by simp
  next
    case False
    have "collapse_ws (c # cs) = c # collapse_ws cs" using False by simp
    then show ?thesis
      using 2(2)[OF False] match_here_collapse[of c cs]
      by (auto simp del: starts_price.simps match_here.simps split: option.splits)
  qed
qed

lemma parsePrice_None_holds: "parsePrice t = None \<longleftrightarrow> \<not> holds_price t"
  using parsePrice_None_iff regex_search_collapse by simp

lemma starts_price_split:
  assumes "starts_price (c # cs)"
  shows "\<exists>sp ds rest. cs = sp @ ds @ rest \<and> is_currency c \<and> (\<forall>x\<in>set sp. is_space x) \<and>
           ds \<noteq> [] \<and> (\<forall>d\<in>set ds. is_digit d) \<and> (rest = [] \<or> \<not> is_digit (hd rest))"
proof -
  let ?sp = "takeWhile is_space cs"
  let ?D = "dropWhile is_space cs"
  let ?ds = "takeWhile is_digit ?D"
  let ?rest = "dropWhile is_digit ?D"
  from assms obtain d D' where D: "?D = d # D'" "is_digit d" and c: "is_currency c"
    by (auto split: list.splits)
  have 1: "cs = ?sp @ ?ds @ ?rest" by simp
  have 2: "\<forall>x\<in>set ?sp. is_space x" by (meson set_takeWhileD)
  have 3: "?ds \<noteq> []" using D by simp
  have 4: "\<forall>d\<in>set ?ds. is_digit d" by (meson set_takeWhileD)
  have 5: "?rest = [] \<or> \<not> is_digit (hd ?rest)" by (metis hd_dropWhile)
  show ?thesis using 1 2 3 4 5 c by blast
qed

lemma holds_price_split:
  "holds_price t \<Longrightarrow>
   \<exists>pre cur sp ds rest. t = pre @ cur # sp @ ds @ rest \<and> \<not> holds_price pre \<and> is_currency cur \<and>
      (\<forall>x\<in>set sp. is_space x) \<and> ds \<noteq> [] \<and> (\<forall>d\<in>set ds. is_digit d) \<and>
      (rest = [] \<or> \<not> is_digit (hd rest))"
proof (induction t)
  case Nil
  then show ?case by simp
next
  case (Cons c cs)
  show ?case
  proof (cases "starts_price (c # cs)")
    case True
    then obtain sp ds rest where "cs = sp @ ds @ rest" "is_currency c" "\<forall>x\<in>set sp. is_space x"
      "ds \<noteq> []" "\<forall>d\<in>set ds. is_digit d" "rest = [] \<or> \<not> is_digit (hd rest)"
      using starts_price_split by blast
    then have "c # cs = [] @ c # sp @ ds @ rest \<and> \<not> holds_price [] \<and> is_currency c \<and>
      (\<forall>x\<in>set sp. is_space x) \<and> ds \<noteq> [] \<and> (\<forall>d\<in>set ds. is_digit d) \<and>
      (rest = [] \<or> \<not> is_digit (hd rest))" by simp
    then show ?thesis by blast
  next
    case False
    then have "holds_price cs" using Cons.prems by (simp del: starts_price.simps)
    then obtain pre cur sp ds rest where h: "cs = pre @ cur # sp @ ds @ rest" "\<not> holds_price pre"
      "is_currency cur" "\<forall>x\<in>set sp. is_space x" "ds \<noteq> []" "\<forall>d\<in>set ds. is_digit d"
      "rest = [] \<or> \<not> is_digit (hd rest)"
      using Cons.IH by blast
    have "\<not> starts_price (c # pre)"
      using False starts_price_mono[of c pre "cur # sp @ ds @ rest"] h(1) by auto
    then have "\<not> holds_price (c # pre)" using h(2) by (simp del: starts_price.simps)
    moreover have "c # cs = (c # pre) @ cur # sp @ ds @ rest" using h(1) by simp
    ultimately show ?thesis using h(3-7) by blast
  qed
qed

lemma no_currency_no_price: "\<forall>c\<in>set t. \<not> is_currency c \<Longrightarrow> \<not> holds_price t"
  by (induction t) auto

section \<open>Properties of the Price Extractor\<close>

text \<open>
  C3: the Price Extractor collapses white space and returns the first match of a currency
  sign, an optional space and an amount, as the sign followed by the amount with a dot for
  the decimal separator. That a price starts at a place of a text is said without the
  extractor: a currency sign, then white space or nothing, then a digit. For a text
  \<open>pre @ cur # sp @ ds @ rest\<close> in which no price starts in \<open>pre\<close>, \<open>cur\<close> is a currency
  sign, \<open>sp\<close> is white space, \<open>ds\<close> is the whole digit run, the result is \<open>cur\<close>, \<open>ds\<close> and
  the decimal part read off \<open>rest\<close>, whatever else \<open>rest\<close> holds (also further prices).
  Every text in which a price starts has this form, and every other text gives \<open>null\<close>:
  a text without a currency sign, and also a text whose currency signs start no amount.
  A text that holds \<open>$12.50\<close> after a part without a price gives \<open>$12.50\<close>, and the euro
  sign with \<open>9,99\<close> gives the euro sign with \<open>9.99\<close>.
\<close>

theorem parsePrice_first_match:
  "(\<not> holds_price pre \<and> is_currency cur \<and> (\<forall>c\<in>set sp. is_space c) \<and>
    ds \<noteq> [] \<and> (\<forall>d\<in>set ds. is_digit d) \<and> (rest = [] \<or> \<not> is_digit (hd rest))
    \<longrightarrow> parsePrice (pre @ cur # sp @ ds @ rest) = Some (cur # ds @ decimal_part rest))
   \<and> (holds_price t \<longrightarrow>
        (\<exists>pre cur sp ds rest. t = pre @ cur # sp @ ds @ rest \<and> \<not> holds_price pre \<and>
           is_currency cur \<and> (\<forall>c\<in>set sp. is_space c) \<and> ds \<noteq> [] \<and> (\<forall>d\<in>set ds. is_digit d) \<and>
           (rest = [] \<or> \<not> is_digit (hd rest)) \<and>
           parsePrice t = Some (cur # ds @ decimal_part rest)))
   \<and> (\<not> holds_price t \<longrightarrow> parsePrice t = None)
   \<and> ((\<forall>c\<in>set t. \<not> is_currency c) \<longrightarrow> \<not> holds_price t \<and> parsePrice t = None)
   \<and> (\<not> holds_price pre \<longrightarrow>
        parsePrice (pre @ js ''$12.50'' @ post) = Some (js ''$12.50'')
        \<and> parsePrice (pre @ euro # js ''9,99'' @ post) = Some (euro # js ''9.99''))
   \<and> parsePrice (js ''$12.50'') = Some (js ''$12.50'')
   \<and> parsePrice (euro # js ''9,99'') = Some (euro # js ''9.99'')
   \<and> parsePrice (js ''no price here'') = None
   \<and> parsePrice (js ''from $5 to '' @ pound # js ''7.50'') = Some (js ''$5'')
   \<and> parsePrice (js ''$'') = None
   \<and> parsePrice (js ''Price: $TBD'') = None
   \<and> parsePrice (js ''Price: $TBD now $20'') = Some (js ''$20'')"
proof (intro conjI impI)
  assume "\<not> holds_price pre \<and> is_currency cur \<and> (\<forall>c\<in>set sp. is_space c) \<and>
    ds \<noteq> [] \<and> (\<forall>d\<in>set ds. is_digit d) \<and> (rest = [] \<or> \<not> is_digit (hd rest))"
  then show "parsePrice (pre @ cur # sp @ ds @ rest) = Some (cur # ds @ decimal_part rest)"
    using parsePrice_first parsePrice_None_holds by blast
next
  assume "holds_price t"
  then obtain pre cur sp ds rest where h: "t = pre @ cur # sp @ ds @ rest" "\<not> holds_price pre"
      "is_currency cur" "\<forall>x\<in>set sp. is_space x" "ds \<noteq> []" "\<forall>d\<in>set ds. is_digit d"
      "rest = [] \<or> \<not> is_digit (hd rest)"
    using holds_price_split by blast
  have p: "parsePrice pre = None" using h(2) parsePrice_None_holds by blast
  have "parsePrice t = Some (cur # ds @ decimal_part rest)"
    unfolding h(1) by (rule parsePrice_first[OF p h(3-7)])
  then show "\<exists>pre cur sp ds rest. t = pre @ cur # sp @ ds @ rest \<and> \<not> holds_price pre \<and>
           is_currency cur \<and> (\<forall>c\<in>set sp. is_space c) \<and> ds \<noteq> [] \<and> (\<forall>d\<in>set ds. is_digit d) \<and>
           (rest = [] \<or> \<not> is_digit (hd rest)) \<and>
           parsePrice t = Some (cur # ds @ decimal_part rest)"
    using h by blast
next
  assume "\<not> holds_price t"
  then show "parsePrice t = None" using parsePrice_None_holds by blast
next
  assume "\<forall>c\<in>set t. \<not> is_currency c"
  then show "\<not> holds_price t" by (rule no_currency_no_price)
next
  assume "\<forall>c\<in>set t. \<not> is_currency c"
  then show "parsePrice t = None" by (rule parsePrice_no_currency)
next
  assume "\<not> holds_price pre"
  then have p: "parsePrice pre = None" using parsePrice_None_holds by blast
  have "parsePrice (pre @ dollar # [] @ js ''12'' @ (js ''.50'' @ post))
        = Some (dollar # js ''12'' @ decimal_part (js ''.50'' @ post))"
    by (rule parsePrice_first[OF p]) (simp_all add: char_defs)
  then show "parsePrice (pre @ js ''$12.50'' @ post) = Some (js ''$12.50'')"
    by (simp add: decimal_part_def char_defs)
next
  assume "\<not> holds_price pre"
  then have p: "parsePrice pre = None" using parsePrice_None_holds by blast
  have "parsePrice (pre @ euro # [] @ js ''9'' @ (js '',99'' @ post))
        = Some (euro # js ''9'' @ decimal_part (js '',99'' @ post))"
    by (rule parsePrice_first[OF p]) (simp_all add: char_defs)
  then show "parsePrice (pre @ euro # js ''9,99'' @ post) = Some (euro # js ''9.99'')"
    by (simp add: decimal_part_def char_defs)
qed code_simp+

theorem parsePrice_first_match_witness:
  "\<not> holds_price (js ''Price: $TBD now '') \<and> is_currency pound \<and> list_all is_space [0x09, 0x0A]
   \<and> js ''120'' \<noteq> [] \<and> list_all is_digit (js ''120'') \<and> \<not> is_digit (hd (js '',5 or $3''))
   \<and> parsePrice (js ''Price: $TBD now '' @ pound # [0x09, 0x0A] @ js ''120'' @ js '',5 or $3'')
       = Some (pound # js ''120'')
   \<and> \<not> holds_price (js ''Price: $TBD'') \<and> parsePrice (js ''Price: $TBD'') = None
   \<and> \<not> holds_price (js ''$'') \<and> parsePrice (js ''$'') = None
   \<and> list_all (\<lambda>c. \<not> is_currency c) (js ''free'') \<and> parsePrice (js ''free'') = None
   \<and> holds_price (js ''$ x $5'') \<and> parsePrice (js ''$ x $5'') = Some (js ''$5'')
   \<and> parsePrice (js ''Price: $TBD now '' @ js ''$12.50'' @ js ''0 or $3'') = Some (js ''$12.50'')"
proof -
  have a: "\<not> holds_price (js ''Price: $TBD now '')" "is_currency pound"
    "list_all is_space [0x09, 0x0A]" "js ''120'' \<noteq> []" "list_all is_digit (js ''120'')"
    "\<not> is_digit (hd (js '',5 or $3''))" "decimal_part (js '',5 or $3'') = []"
    "\<not> holds_price (js ''Price: $TBD'')" "\<not> holds_price (js ''$'')"
    "list_all (\<lambda>c. \<not> is_currency c) (js ''free'')" "holds_price (js ''$ x $5'')"
    by code_simp+
  have b: "parsePrice (js ''$ x $5'') = Some (js ''$5'')" by code_simp
  note T = parsePrice_first_match
  have 1: "parsePrice (js ''Price: $TBD now '' @ pound # [0x09, 0x0A] @ js ''120'' @ js '',5 or $3'')
       = Some (pound # js ''120'')"
    using T[of "js ''Price: $TBD now ''" pound "[0x09, 0x0A]" "js ''120''" "js '',5 or $3''"] a
    by (simp add: list_all_iff del: js_simps)
  have 2: "parsePrice (js ''Price: $TBD'') = None" "parsePrice (js ''$'') = None"
    using T[where t = "js ''Price: $TBD''"] T[where t = "js ''$''"] a by blast+
  have 3: "parsePrice (js ''free'') = None"
    using T[where t = "js ''free''"] a(10) by (simp add: list_all_iff del: js_simps)
  have 4: "parsePrice (js ''Price: $TBD now '' @ js ''$12.50'' @ js ''0 or $3'') = Some (js ''$12.50'')"
    using T[where pre = "js ''Price: $TBD now ''" and post = "js ''0 or $3''"] a(1) by blast
  show ?thesis using a 1 2 3 4 b by (simp del: js_simps)
qed


section \<open>Facts about arrays made from sets\<close>

lemma set_add_fold:
  "distinct acc \<Longrightarrow> distinct (foldl set_add acc xs) \<and> set (foldl set_add acc xs) = set acc \<union> set xs"
  by (induction xs arbitrary: acc) (auto simp: set_add_def)

lemma distinct_array_from_set: "distinct (array_from_set xs)"
  using set_add_fold[of "[]" xs] by (simp add: array_from_set_def)

lemma set_array_from_set: "set (array_from_set xs) = set xs"
  using set_add_fold[of "[]" xs] by (simp add: array_from_set_def)

section \<open>Properties of the Page Scraper\<close>

text \<open>
  C7: the price of a scraped page is the result of the Price Extractor on the first of
  the five candidates, in the order offers, price, first element with class price, first
  element with id price, whole body text, for which it is not absent; it is absent when
  it is absent for all five.
\<close>

theorem scrape_price_order:
  "scrape_price pg = price_in_order pg
   \<and> (axios_get u = Inr resp \<and> data resp = TextData d \<and> d \<noteq> [] \<and> cheerioLoad d = Inr pg
        \<longrightarrow> (\<exists>r. scrapeBasic axios_get cheerioLoad u = Inr r \<and> ok r \<and> price r = price_in_order pg))"
  using scrapeBasic_ok[of axios_get u resp d cheerioLoad pg]
  by (simp add: scrape_price_in_order)

theorem scrape_price_order_witness:
  "serve (js ''<html>'') (js ''http://shop'') = Inr \<lparr>data = TextData (js ''<html>''), responseUrl = None\<rparr>
   \<and> parsed_as shop_page (js ''<html>'') = Inr shop_page
   \<and> price_in_order shop_page = Some (js ''$20'')
   \<and> (\<exists>r. scrapeBasic (serve (js ''<html>'')) (parsed_as shop_page) (js ''http://shop'') = Inr r
           \<and> ok r \<and> price r = Some (js ''$20''))"
proof -
  have p: "price_in_order shop_page = Some (js ''$20'')"
    by code_simp
  show ?thesis
    using scrape_price_order[of shop_page "serve (js ''<html>'')" "js ''http://shop''"
        "\<lparr>data = TextData (js ''<html>''), responseUrl = None\<rparr>" "js ''<html>''" "parsed_as shop_page"]
    by (simp add: p serve_def parsed_as_def)
qed

text \<open>
  C6, as stated, fails: on a page where \<open>div.notes\<close> matches a container whose text has
  60 characters or more and \<open>ul.notes li\<close> matches two notes, the first selector that
  matches an element yields no notes, but the scraper goes on and returns the two notes.
\<close>

theorem scrape_notes_first_matching_counterexample:
  "scrape_notes container_page = [js ''rose'', js ''musk'']
   \<and> notes_first_matching container_page = []"
  by code_simp

text \<open>
  C6, amended: the notes of a page are taken from the first selector in priority order of
  which at least one text is kept, a text being kept when, trimmed, it is not empty and
  shorter than 60 characters; the kept texts of that selector are deduplicated and capped
  at 20, and no later selector adds to them.
\<close>

theorem scrape_notes_first_kept_selector:
  "scrape_notes pg = notes_first_kept pg
   \<and> distinct (scrape_notes pg) \<and> length (scrape_notes pg) \<le> 20
   \<and> (axios_get u = Inr resp \<and> data resp = TextData d \<and> d \<noteq> [] \<and> cheerioLoad d = Inr pg
        \<longrightarrow> (\<exists>r. scrapeBasic axios_get cheerioLoad u = Inr r \<and> ok r \<and>
                 sr_notes r = Some (notes_first_kept pg)))"
proof -
  have "distinct (scrape_notes pg)"
    by (simp add: scrape_notes_def distinct_array_from_set)
  moreover have "length (scrape_notes pg) \<le> 20"
    by (simp add: scrape_notes_def)
  ultimately show ?thesis
    using scrapeBasic_ok[of axios_get u resp d cheerioLoad pg]
    by (simp add: scrape_notes_first_kept)
qed

theorem scrape_notes_first_kept_selector_witness:
  "serve (js ''<html>'') (js ''http://shop'') = Inr \<lparr>data = TextData (js ''<html>''), responseUrl = None\<rparr>
   \<and> parsed_as container_page (js ''<html>'') = Inr container_page
   \<and> notes_first_kept container_page = [js ''rose'', js ''musk'']
   \<and> (\<exists>r. scrapeBasic (serve (js ''<html>'')) (parsed_as container_page) (js ''http://shop'') = Inr r
           \<and> ok r \<and> sr_notes r = Some [js ''rose'', js ''musk''])"
proof -
  have p: "notes_first_kept container_page = [js ''rose'', js ''musk'']"
    by code_simp
  show ?thesis
    using scrape_notes_first_kept_selector[of container_page "serve (js ''<html>'')" "js ''http://shop''"
        "\<lparr>data = TextData (js ''<html>''), responseUrl = None\<rparr>" "js ''<html>''" "parsed_as container_page"]
    by (simp add: p serve_def parsed_as_def)
qed






section \<open>Properties of the Search Client\<close>

text \<open>
  C8: when the API key or the search-engine id is missing, \<open>googleSearch\<close> raises the
  configuration error and no request has been issued, whatever the query, the limit and
  the network; when both are present the result is never the configuration error, and
  exactly one request, with the credentials and the site-restricted query, is issued.
\<close>

theorem googleSearch_credentials:
  "(GOOGLE_API_KEY cfg = [] \<or> GOOGLE_CSE_CX cfg = []
      \<longrightarrow> googleSearch cfg axios_get query n sent = (Inl (ConfigError missing_credentials), sent))
   \<and> (GOOGLE_API_KEY cfg \<noteq> [] \<and> GOOGLE_CSE_CX cfg \<noteq> []
      \<longrightarrow> (\<forall>m. fst (googleSearch cfg axios_get query n sent) \<noteq> Inl (ConfigError m))
          \<and> (\<exists>req. snd (googleSearch cfg axios_get query n sent) = sent @ [req]
                  \<and> key req = GOOGLE_API_KEY cfg \<and> cx req = GOOGLE_CSE_CX cfg
                  \<and> q req = buildSiteQuery cfg query \<and> num req = n))"
  by (auto simp: googleSearch_def Let_def split: sum.splits)

theorem googleSearch_credentials_witness:
  "GOOGLE_CSE_CX without_cx = []
   \<and> googleSearch without_cx one_hit (js ''rose perfume'') 6 [] =
       (Inl (ConfigError missing_credentials), [])
   \<and> GOOGLE_API_KEY with_keys \<noteq> [] \<and> GOOGLE_CSE_CX with_keys \<noteq> []
   \<and> fst (googleSearch with_keys one_hit (js ''rose perfume'') 6 []) = Inr [hit ''A'' ''http://a'']
   \<and> length (snd (googleSearch with_keys one_hit (js ''rose perfume'') 6 [])) = 1"
  using googleSearch_credentials[of without_cx one_hit "js ''rose perfume''" 6 "[]"]
    googleSearch_credentials[of with_keys one_hit "js ''rose perfume''" 6 "[]"]
  by (simp add: without_cx_def with_keys_def googleSearch_def one_hit_def or_empty_def hit_def)

section \<open>Facts about the assembler\<close>

lemma promise_all_map_Inr: "promise_all (map (\<lambda>x. Inr (f x)) xs) = Inr (map f xs)"
  by (induction xs) auto

lemma suggestions_map:
  "suggestions results (map h results) = map (\<lambda>r. assemble r (Some (h r))) results"
  by (rule nth_equalityI) (simp_all add: suggestions_def nth_enumerate_eq index_opt_def)

lemma scrapeBasic_projr:
  "scrapeBasic axios_get cheerioLoad u = Inr (projr (scrapeBasic axios_get cheerioLoad u))"
  using scrapeBasic_returns[of axios_get cheerioLoad u] by auto

lemma scrape_and_assemble_map:
  "scrape_and_assemble axios_get cheerioLoad results =
     Inr (map (\<lambda>r. assemble r (Some (projr (scrapeBasic axios_get cheerioLoad (link r))))) results)"
proof -
  let ?h = "\<lambda>r. projr (scrapeBasic axios_get cheerioLoad (link r))"
  have "map (\<lambda>r. scrapeBasic axios_get cheerioLoad (link r)) results = map (\<lambda>r. Inr (?h r)) results"
    using scrapeBasic_projr by (intro map_cong refl)
  then have "promise_all (map (\<lambda>r. scrapeBasic axios_get cheerioLoad (link r)) results)
             = Inr (map ?h results)"
    by (simp only: promise_all_map_Inr)
  then show ?thesis
    by (simp add: scrape_and_assemble_def suggestions_map)
qed

lemma first_price_nonempty: "first_price ts \<noteq> Some []"
  by (induction ts) (auto split: option.splits)

lemma scrapeBasic_shape:
  assumes "scrapeBasic axios_get cheerioLoad u = Inr s"
  shows "(ok s \<and> price s \<noteq> Some [] \<and> (\<exists>t. sr_title s = Some t) \<and> (\<exists>ns. sr_notes s = Some ns))
         \<or> (\<not> ok s \<and> price s = None \<and> sr_title s = None \<and> sr_notes s = None)"
  using assms first_price_nonempty
  by (auto simp: scrapeBasic_def scrape_body_def scrape_price_def
           split: sum.splits resp_data.splits if_splits)

lemma assemble_carries:
  assumes "scrapeBasic axios_get cheerioLoad u = Inr s"
  shows "carries_scrape_titled (assemble r (Some s)) r s"
  using scrapeBasic_shape[OF assms]
  by (auto simp: carries_scrape_titled_def assemble_def or_null_def or_empty_def
           split: option.splits)

section \<open>Properties of the Suggestion Assembler\<close>

text \<open>
  C1, as stated, fails: a page without any title is scraped with \<open>ok: true\<close> and the
  title \<open>''\<close>, and its Suggestion carries \<open>sourceTitle: null\<close>, not that title.
\<close>

theorem suggestions_empty_title_counterexample:
  "scrapeBasic (serve (js ''<html>'')) (parsed_as blank_page) (js ''http://a'') =
     Inr \<lparr>url = js ''http://a'', ok = True, sr_title = Some [], desc = Some [], price = None,
          sr_notes = Some [], error_text = None\<rparr>
   \<and> scrape_and_assemble (serve (js ''<html>'')) (parsed_as blank_page) [hit ''A'' ''http://a''] =
     Inr [\<lparr>sg_title = js ''A'', sg_url = js ''http://a'', sg_snippet = js ''...'',
           sg_price = None, sourceTitle = None, sg_notes = []\<rparr>]
   \<and> \<not> carries_scrape
         \<lparr>sg_title = js ''A'', sg_url = js ''http://a'', sg_snippet = js ''...'',
          sg_price = None, sourceTitle = None, sg_notes = []\<rparr>
         (hit ''A'' ''http://a'')
         \<lparr>url = js ''http://a'', ok = True, sr_title = Some [], desc = Some [], price = None,
          sr_notes = Some [], error_text = None\<rparr>"
  by code_simp

text \<open>
  C1, amended: for a batch of n search results the assembler returns, never raising, n
  Suggestions in the order of the results; the i-th carries title, url (the link) and
  snippet of the i-th result and, of the scrape of that link, price and notes, and as
  sourceTitle the scraped title when that is not empty, \<open>null\<close> when it is empty; when the
  scrape failed, price and sourceTitle are \<open>null\<close> and notes are empty.
\<close>

theorem suggestions_one_per_result:
  "\<exists>sugs. scrape_and_assemble axios_get cheerioLoad results = Inr sugs
      \<and> length sugs = length results
      \<and> (\<forall>i<length results. \<exists>s.
            scrapeBasic axios_get cheerioLoad (link (results ! i)) = Inr s
            \<and> carries_scrape_titled (sugs ! i) (results ! i) s)"
proof -
  let ?h = "\<lambda>r. projr (scrapeBasic axios_get cheerioLoad (link r))"
  let ?sugs = "map (\<lambda>r. assemble r (Some (?h r))) results"
  have "\<exists>s. scrapeBasic axios_get cheerioLoad (link (results ! i)) = Inr s
            \<and> carries_scrape_titled (?sugs ! i) (results ! i) s" if "i < length results" for i
    using that scrapeBasic_projr[of axios_get cheerioLoad "link (results ! i)"]
      assemble_carries[of axios_get cheerioLoad "link (results ! i)" _ "results ! i"]
    by auto
  then show ?thesis
    using scrape_and_assemble_map[of axios_get cheerioLoad results] by simp
qed

theorem suggestions_one_per_result_witness:
  "length batch = 6
   \<and> scrape_and_assemble flaky (parsed_as shop_page) batch =
       Inr [\<lparr>sg_title = js ''A'', sg_url = js ''http://a'', sg_snippet = js ''...'',
             sg_price = Some (js ''$20''), sourceTitle = Some (js ''X''),
             sg_notes = [js ''rose'', js ''musk'']\<rparr>,
            \<lparr>sg_title = js ''B'', sg_url = js ''http://down'', sg_snippet = js ''...'',
             sg_price = None, sourceTitle = None, sg_notes = []\<rparr>,
            \<lparr>sg_title = js ''C'', sg_url = js ''http://c'', sg_snippet = js ''...'',
             sg_price = Some (js ''$20''), sourceTitle = Some (js ''X''),
             sg_notes = [js ''rose'', js ''musk'']\<rparr>,
            \<lparr>sg_title = js ''D'', sg_url = js ''http://d'', sg_snippet = js ''...'',
             sg_price = Some (js ''$20''), sourceTitle = Some (js ''X''),
             sg_notes = [js ''rose'', js ''musk'']\<rparr>,
            \<lparr>sg_title = js ''E'', sg_url = js ''http://down'', sg_snippet = js ''...'',
             sg_price = None, sourceTitle = None, sg_notes = []\<rparr>,
            \<lparr>sg_title = js ''F'', sg_url = js ''http://f'', sg_snippet = js ''...'',
             sg_price = Some (js ''$20''), sourceTitle = Some (js ''X''),
             sg_notes = [js ''rose'', js ''musk'']\<rparr>]
   \<and> (\<exists>sugs. scrape_and_assemble flaky (parsed_as shop_page) batch = Inr sugs
         \<and> length sugs = 6
         \<and> (\<exists>s. scrapeBasic flaky (parsed_as shop_page) (link (batch ! 1)) = Inr s
                \<and> carries_scrape_titled (sugs ! 1) (batch ! 1) s))"
proof -
  have l: "length batch = 6" by code_simp
  have c: "scrape_and_assemble flaky (parsed_as shop_page) batch =
       Inr [\<lparr>sg_title = js ''A'', sg_url = js ''http://a'', sg_snippet = js ''...'',
             sg_price = Some (js ''$20''), sourceTitle = Some (js ''X''),
             sg_notes = [js ''rose'', js ''musk'']\<rparr>,
            \<lparr>sg_title = js ''B'', sg_url = js ''http://down'', sg_snippet = js ''...'',
             sg_price = None, sourceTitle = None, sg_notes = []\<rparr>,
            \<lparr>sg_title = js ''C'', sg_url = js ''http://c'', sg_snippet = js ''...'',
             sg_price = Some (js ''$20''), sourceTitle = Some (js ''X''),
             sg_notes = [js ''rose'', js ''musk'']\<rparr>,
            \<lparr>sg_title = js ''D'', sg_url = js ''http://d'', sg_snippet = js ''...'',
             sg_price = Some (js ''$20''), sourceTitle = Some (js ''X''),
             sg_notes = [js ''rose'', js ''musk'']\<rparr>,
            \<lparr>sg_title = js ''E'', sg_url = js ''http://down'', sg_snippet = js ''...'',
             sg_price = None, sourceTitle = None, sg_notes = []\<rparr>,
            \<lparr>sg_title = js ''F'', sg_url = js ''http://f'', sg_snippet = js ''...'',
             sg_price = Some (js ''$20''), sourceTitle = Some (js ''X''),
             sg_notes = [js ''rose'', js ''musk'']\<rparr>]"
    by code_simp
  obtain sugs where s: "scrape_and_assemble flaky (parsed_as shop_page) batch = Inr sugs"
      "length sugs = length batch"
      "\<forall>i<length batch. \<exists>s. scrapeBasic flaky (parsed_as shop_page) (link (batch ! i)) = Inr s
            \<and> carries_scrape_titled (sugs ! i) (batch ! i) s"
    using suggestions_one_per_result[of flaky "parsed_as shop_page" batch] by blast
  have "\<exists>s. scrapeBasic flaky (parsed_as shop_page) (link (batch ! 1)) = Inr s
            \<and> carries_scrape_titled (sugs ! 1) (batch ! 1) s"
    using s(3) l by simp
  then show ?thesis using l c s(1,2) by (simp only: simp_thms) blast
qed

text \<open>
  C9: a page that is fetched and parsed, with no social-preview title (or an empty one)
  and no text in a title element, is scraped with \<open>ok: true\<close> and the title \<open>''\<close>; its
  Suggestion has \<open>sourceTitle: null\<close>, as the Suggestion of a failed scrape has.
\<close>

theorem absent_sourceTitle_not_failure:
  "(axios_get (link r) = Inr resp \<and> data resp = TextData d \<and> d \<noteq> [] \<and> cheerioLoad d = Inr pg
      \<and> (og_title pg = None \<or> og_title pg = Some []) \<and> trim (title_text pg) = []
     \<longrightarrow> (\<exists>s g. scrapeBasic axios_get cheerioLoad (link r) = Inr s \<and> ok s \<and> sr_title s = Some []
               \<and> scrape_and_assemble axios_get cheerioLoad [r] = Inr [g] \<and> sourceTitle g = None))
   \<and> (scrapeBasic axios_get cheerioLoad (link r) = Inr s \<and> \<not> ok s
     \<longrightarrow> (\<exists>g. scrape_and_assemble axios_get cheerioLoad [r] = Inr [g] \<and> sourceTitle g = None))"
proof (intro conjI impI)
  assume a: "axios_get (link r) = Inr resp \<and> data resp = TextData d \<and> d \<noteq> [] \<and> cheerioLoad d = Inr pg
      \<and> (og_title pg = None \<or> og_title pg = Some []) \<and> trim (title_text pg) = []"
  then have t: "or_else (og_title pg) (trim (title_text pg)) = []"
    by (auto simp: or_else_def)
  show "\<exists>s g. scrapeBasic axios_get cheerioLoad (link r) = Inr s \<and> ok s \<and> sr_title s = Some []
               \<and> scrape_and_assemble axios_get cheerioLoad [r] = Inr [g] \<and> sourceTitle g = None"
    using a scrapeBasic_ok[of axios_get "link r" resp d cheerioLoad pg]
    by (auto simp: scrape_and_assemble_map assemble_def or_null_def or_else_def)
next
  assume a: "scrapeBasic axios_get cheerioLoad (link r) = Inr s \<and> \<not> ok s"
  then have "sr_title s = None" using scrapeBasic_shape[of axios_get cheerioLoad "link r" s] by auto
  then show "\<exists>g. scrape_and_assemble axios_get cheerioLoad [r] = Inr [g] \<and> sourceTitle g = None"
    using a by (simp add: scrape_and_assemble_map assemble_def or_null_def)
qed

theorem absent_sourceTitle_not_failure_witness:
  "serve (js ''<html>'') (link (hit ''A'' ''http://a'')) =
       Inr \<lparr>data = TextData (js ''<html>''), responseUrl = None\<rparr>
   \<and> js ''<html>'' \<noteq> [] \<and> parsed_as blank_page (js ''<html>'') = Inr blank_page
   \<and> og_title blank_page = None \<and> trim (title_text blank_page) = []
   \<and> (\<exists>s g. scrapeBasic (serve (js ''<html>'')) (parsed_as blank_page) (link (hit ''A'' ''http://a'')) = Inr s
          \<and> ok s \<and> sr_title s = Some []
          \<and> scrape_and_assemble (serve (js ''<html>'')) (parsed_as blank_page) [hit ''A'' ''http://a''] = Inr [g]
          \<and> sourceTitle g = None)
   \<and> scrapeBasic flaky (parsed_as blank_page) (link (hit ''B'' ''http://down'')) =
       Inr \<lparr>url = js ''http://down'', ok = False, sr_title = None, desc = None, price = None,
            sr_notes = None, error_text = Some (js ''connect ECONNREFUSED'')\<rparr>
   \<and> (\<exists>g. scrape_and_assemble flaky (parsed_as blank_page) [hit ''B'' ''http://down''] = Inr [g]
          \<and> sourceTitle g = None)"
proof -
  have a: "serve (js ''<html>'') (link (hit ''A'' ''http://a'')) =
       Inr \<lparr>data = TextData (js ''<html>''), responseUrl = None\<rparr>"
    "js ''<html>'' \<noteq> []" "parsed_as blank_page (js ''<html>'') = Inr blank_page"
    "og_title blank_page = None" "trim (title_text blank_page) = []"
    by (simp_all add: serve_def parsed_as_def blank_page_def trim_def)
  have b: "scrapeBasic flaky (parsed_as blank_page) (link (hit ''B'' ''http://down'')) =
       Inr \<lparr>url = js ''http://down'', ok = False, sr_title = None, desc = None, price = None,
            sr_notes = None, error_text = Some (js ''connect ECONNREFUSED'')\<rparr>"
    by code_simp
  show ?thesis
    using absent_sourceTitle_not_failure[of "serve (js ''<html>'')" "hit ''A'' ''http://a''"
        "\<lparr>data = TextData (js ''<html>''), responseUrl = None\<rparr>" "js ''<html>''"
        "parsed_as blank_page" blank_page]
      absent_sourceTitle_not_failure[where axios_get = flaky and r = "hit ''B'' ''http://down''"
        and cheerioLoad = "parsed_as blank_page" and s =
        "\<lparr>url = js ''http://down'', ok = False, sr_title = None, desc = None, price = None,
            sr_notes = None, error_text = Some (js ''connect ECONNREFUSED'')\<rparr>"]
    by (simp add: a b del: js_simps)
qed

section \<open>Facts about trimming and normalization\<close>

lemma last_dropWhile: "dropWhile P xs \<noteq> [] \<Longrightarrow> last (dropWhile P xs) = last xs"
  by (induction xs) (auto split: if_splits)

lemma hd_dropWhile_not: "dropWhile P xs \<noteq> [] \<Longrightarrow> \<not> P (hd (dropWhile P xs))"
  by (metis hd_dropWhile)

lemma trim_ends:
  assumes "trim s \<noteq> []"
  shows "\<not> is_space (hd (trim s)) \<and> \<not> is_space (last (trim s))"
proof -
  let ?A = "dropWhile is_space s"
  let ?B = "dropWhile is_space (rev ?A)"
  have B: "?B \<noteq> []" using assms by (simp add: trim_def)
  have A: "?A \<noteq> []"
  proof
    assume "?A = []"
    then have "?B = []" by (simp only: rev.simps dropWhile.simps)
    with B show False by contradiction
  qed
  have "last ?B = last (rev ?A)" using B by (rule last_dropWhile)
  then have "hd (trim s) = hd ?A" using A B by (simp add: trim_def hd_rev last_rev)
  moreover have "last (trim s) = hd ?B" using B by (simp add: trim_def last_rev)
  ultimately show ?thesis using hd_dropWhile_not[OF A] hd_dropWhile_not[OF B] by simp
qed

lemma dropWhile_hd: "xs = [] \<or> \<not> P (hd xs) \<Longrightarrow> dropWhile P xs = xs"
  by (cases xs) auto

lemma trim_fixed:
  assumes "s = [] \<or> (\<not> is_space (hd s) \<and> \<not> is_space (last s))"
  shows "trim s = s"
proof (cases "s = []")
  case True
  then show ?thesis by (simp add: trim_def)
next
  case False
  then have h: "\<not> is_space (hd s)" "\<not> is_space (last s)" using assms by auto
  have 1: "dropWhile is_space s = s" using h(1) by (intro dropWhile_hd) simp
  have "hd (rev s) = last s" using False by (simp add: hd_rev)
  then have 2: "dropWhile is_space (rev s) = rev s" using h(2) by (intro dropWhile_hd) simp
  show ?thesis by (simp add: trim_def 1 2)
qed

lemma trim_idem: "trim (trim s) = trim s"
  using trim_ends[of s] by (intro trim_fixed) blast

lemma lower_trim_all_Inr:
  "lower_trim_all lc xs = Inr ys \<Longrightarrow> ys = map (\<lambda>s. trim (lc s)) [s. JStr s \<leftarrow> xs]"
  by (induction xs arbitrary: ys) (auto split: jsval.splits sum.splits)

lemma lower_trim_all_strings:
  "lower_trim_all lc (map JStr ss) = Inr (map (\<lambda>s. trim (lc s)) ss)"
  by (induction ss) auto

lemma norm_Inr:
  assumes "norm lc arr = Inr out"
  shows "out = take 8 (filter (\<lambda>s. s \<noteq> []) (array_from_set (map (\<lambda>s. trim (lc s)) (strings_of arr))))"
proof (cases "truthy arr")
  case False
  then have "out = []" using assms by (simp add: norm_def array_from_set_def)
  moreover have "strings_of arr = []" using False by (cases arr) (auto simp: strings_of_def)
  ultimately show ?thesis by (simp add: array_from_set_def)
next
  case True
  then show ?thesis
    using assms lower_trim_all_Inr[of lc]
    by (cases arr) (auto simp: norm_def strings_of_def split: sum.splits)
qed

lemma normal_form_normalized:
  "normalized_from lc inputs
     (take 8 (filter (\<lambda>s. s \<noteq> []) (array_from_set (map (\<lambda>s. trim (lc s)) inputs))))"
proof -
  let ?f = "filter (\<lambda>s. s \<noteq> []) (array_from_set (map (\<lambda>s. trim (lc s)) inputs))"
  let ?out = "take 8 ?f"
  have sf: "set ?f = {e \<in> set (map (\<lambda>s. trim (lc s)) inputs). e \<noteq> []}"
    by (auto simp: set_array_from_set)
  have so: "set ?out \<subseteq> set ?f" by (rule set_take_subset)
  have 1: "distinct ?out" by (simp add: distinct_array_from_set)
  have 2: "[] \<notin> set ?out" using so sf by blast
  have 3: "length ?out \<le> 8" by simp
  have 4: "list_all (\<lambda>e. trim e = e \<and> e \<in> set (map (\<lambda>s. trim (lc s)) inputs)) ?out"
    unfolding list_all_iff
  proof
    fix e assume "e \<in> set ?out"
    then have e: "e \<in> set (map (\<lambda>s. trim (lc s)) inputs)" using so sf by blast
    then obtain s where "e = trim (lc s)" by auto
    then have "trim e = e" by (simp add: trim_idem)
    with e show "trim e = e \<and> e \<in> set (map (\<lambda>s. trim (lc s)) inputs)" by simp
  qed
  have 5: "length ?out = 8 \<or> list_all (\<lambda>s. trim (lc s) = [] \<or> trim (lc s) \<in> set ?out) inputs"
  proof (cases "length ?f \<le> 8")
    case True
    then have "?out = ?f" by simp
    then have "set ?out = {e \<in> set (map (\<lambda>s. trim (lc s)) inputs). e \<noteq> []}" using sf by simp
    then show ?thesis by (auto simp: list_all_iff)
  next
    case False
    then show ?thesis by simp
  qed
  show ?thesis unfolding normalized_from_def using 1 2 3 4 5 by blast
qed

lemma norm_normalized:
  "norm lc arr = Inr out \<Longrightarrow> normalized_from lc (strings_of arr) out"
  using norm_Inr[of lc arr out] normal_form_normalized[of lc "strings_of arr"] by simp

lemma norm_bucket_normalized:
  "norm_bucket lc parsed k = Inr out \<Longrightarrow> normalized_from lc (bucket_strings parsed k) out"
  by (auto simp: norm_bucket_def bucket_strings_def norm_normalized split: sum.splits)

lemma norm_strings:
  "\<exists>out. norm lc (JArr (map JStr ss)) = Inr out"
  by (simp add: norm_def lower_trim_all_strings)

lemma get_prop_parsed_object:
  "get_prop (parsed_object ts ms bs) (js ''top'') = Inr (JArr (map JStr ts))"
  "get_prop (parsed_object ts ms bs) (js ''middle'') = Inr (JArr (map JStr ms))"
  "get_prop (parsed_object ts ms bs) (js ''base'') = Inr (JArr (map JStr bs))"
  by (simp_all add: get_prop_def parsed_object_def)

lemma normalize_parsed_object: "\<exists>ns. normalize lc (parsed_object ts ms bs) = Inr ns"
  using norm_strings[of lc ts] norm_strings[of lc ms] norm_strings[of lc bs]
  by (auto simp: normalize_def norm_bucket_def get_prop_parsed_object simp del: js_simps)

lemma rose_example:
  assumes "\<forall>s. is_ascii s \<longrightarrow> lc s = toLowerCase_ascii s"
  shows "norm lc (JArr [JStr (js ''Rose''), JStr (js '' rose ''), JStr (js ''ROSE'')]) = Inr [js ''rose'']"
proof -
  have a: "is_ascii (js ''Rose'')" "is_ascii (js '' rose '')" "is_ascii (js ''ROSE'')"
    by code_simp+
  have l: "lc (js ''Rose'') = toLowerCase_ascii (js ''Rose'')"
    "lc (js '' rose '') = toLowerCase_ascii (js '' rose '')"
    "lc (js ''ROSE'') = toLowerCase_ascii (js ''ROSE'')"
    using assms a by blast+
  have "norm toLowerCase_ascii (JArr [JStr (js ''Rose''), JStr (js '' rose ''), JStr (js ''ROSE'')])
        = Inr [js ''rose'']"
    by code_simp
  then show ?thesis
    by (simp add: norm_def l del: js_simps)
qed

section \<open>Properties of the Note Extractor\<close>

text \<open>
  C2: whatever the parsing cascade left in \<open>parsed\<close>, when \<open>extractNotes\<close> returns, each of
  its three buckets is in normal form: every entry is the lower-cased and then trimmed
  form of a string of that bucket of \<open>parsed\<close> and is trimmed, no entry occurs twice, none
  is empty, there are at most 8, and no normal form is missing unless the cap of 8 is
  reached. It does return for an object with three arrays of strings. The same holds for
  \<open>norm\<close> alone, and for a lower-casing that is the usual one on ASCII text \<open>norm\<close> maps
  \<open>["Rose", " rose ", "ROSE"]\<close> to \<open>["rose"]\<close>.
\<close>

theorem normalize_buckets_normalized:
  "(normalize lc parsed = Inr ns \<longrightarrow>
      (\<exists>t m b. ns = \<lparr>top = Some t, middle = Some m, base = Some b\<rparr>
         \<and> normalized_from lc (bucket_strings parsed ''top'') t
         \<and> normalized_from lc (bucket_strings parsed ''middle'') m
         \<and> normalized_from lc (bucket_strings parsed ''base'') b))
   \<and> (\<exists>ns. normalize lc (parsed_object ts ms bs) = Inr ns)
   \<and> (norm lc arr = Inr out \<longrightarrow> normalized_from lc (strings_of arr) out)
   \<and> ((\<forall>s. is_ascii s \<longrightarrow> lc s = toLowerCase_ascii s) \<longrightarrow>
         norm lc (JArr [JStr (js ''Rose''), JStr (js '' rose ''), JStr (js ''ROSE'')])
           = Inr [js ''rose''])"
proof (intro conjI impI)
  assume "normalize lc parsed = Inr ns"
  then show "\<exists>t m b. ns = \<lparr>top = Some t, middle = Some m, base = Some b\<rparr>
         \<and> normalized_from lc (bucket_strings parsed ''top'') t
         \<and> normalized_from lc (bucket_strings parsed ''middle'') m
         \<and> normalized_from lc (bucket_strings parsed ''base'') b"
    by (auto simp: normalize_def norm_bucket_normalized split: sum.splits)
next
  show "\<exists>ns. normalize lc (parsed_object ts ms bs) = Inr ns"
    by (rule normalize_parsed_object)
next
  assume "norm lc arr = Inr out"
  then show "normalized_from lc (strings_of arr) out" by (rule norm_normalized)
next
  assume "\<forall>s. is_ascii s \<longrightarrow> lc s = toLowerCase_ascii s"
  then show "norm lc (JArr [JStr (js ''Rose''), JStr (js '' rose ''), JStr (js ''ROSE'')])
           = Inr [js ''rose'']"
    by (rule rose_example)
qed

theorem normalize_buckets_normalized_witness:
  "normalize toLowerCase_ascii
     (parsed_object [js ''Rose'', js '' rose '', js ''ROSE''] []
        [js ''a'', js ''b'', js ''c'', js ''d'', js ''e'', js ''f'', js ''g'', js ''h'', js ''i''])
     = Inr \<lparr>top = Some [js ''rose''], middle = Some [],
            base = Some [js ''a'', js ''b'', js ''c'', js ''d'', js ''e'', js ''f'', js ''g'', js ''h'']\<rparr>
   \<and> normalized_from toLowerCase_ascii [js ''Rose'', js '' rose '', js ''ROSE''] [js ''rose'']
   \<and> norm toLowerCase_ascii (JArr [JStr (js ''Rose''), JStr (js '' rose ''), JStr (js ''ROSE'')])
       = Inr [js ''rose'']"
proof -
  let ?p = "parsed_object [js ''Rose'', js '' rose '', js ''ROSE''] []
        [js ''a'', js ''b'', js ''c'', js ''d'', js ''e'', js ''f'', js ''g'', js ''h'', js ''i'']"
  let ?ns = "\<lparr>top = Some [js ''rose''], middle = Some [],
            base = Some [js ''a'', js ''b'', js ''c'', js ''d'', js ''e'', js ''f'', js ''g'', js ''h'']\<rparr>"
  note T = normalize_buckets_normalized[of toLowerCase_ascii ?p ?ns]
  have c: "normalize toLowerCase_ascii ?p = Inr ?ns" by code_simp
  have b: "bucket_strings ?p ''top'' = [js ''Rose'', js '' rose '', js ''ROSE'']" by code_simp
  from T c have "normalized_from toLowerCase_ascii (bucket_strings ?p ''top'') [js ''rose'']"
    by (auto simp del: js_simps)
  moreover from T have "norm toLowerCase_ascii
      (JArr [JStr (js ''Rose''), JStr (js '' rose ''), JStr (js ''ROSE'')]) = Inr [js ''rose'']"
    by blast
  ultimately show ?thesis using c b by (simp del: js_simps)
qed

section \<open>Facts about the query\<close>

lemma collapse_ws_snoc: "\<not> is_space d \<Longrightarrow> collapse_ws (u @ [d]) = collapse_ws u @ [d]"
  using collapse_ws_nonspace_append[of d u "[]"] by simp

lemma collapse_ws_mid:
  assumes "s \<noteq> []" "\<not> is_space (hd s)" "\<not> is_space (last s)"
  shows "collapse_ws (A @ s @ B) = collapse_ws A @ collapse_ws s @ collapse_ws B"
proof -
  obtain c s' where s: "s = c # s'" using assms(1) by (cases s) auto
  obtain u d where u: "s = u @ [d]" using assms(1) by (cases s rule: rev_cases) auto
  have c: "\<not> is_space c" using assms(2) s by simp
  have d: "\<not> is_space d" using assms(3) u by simp
  have "collapse_ws (A @ s @ B) = collapse_ws A @ c # collapse_ws (s' @ B)"
    using collapse_ws_nonspace_append[OF c, of A "s' @ B"] by (simp add: s)
  also have "c # collapse_ws (s' @ B) = collapse_ws (s @ B)" using c by (simp add: s)
  also have "collapse_ws (s @ B) = collapse_ws u @ d # collapse_ws B"
    using collapse_ws_nonspace_append[OF d, of u B] by (simp add: u)
  also have "\<dots> = collapse_ws s @ collapse_ws B"
    using collapse_ws_snoc[OF d, of u] by (simp add: u)
  finally show ?thesis .
qed

lemma collapse_ws_ends:
  assumes "s \<noteq> []" "\<not> is_space (hd s)" "\<not> is_space (last s)"
  shows "collapse_ws s \<noteq> [] \<and> hd (collapse_ws s) = hd s \<and> last (collapse_ws s) = last s"
proof -
  obtain c s' where s: "s = c # s'" using assms(1) by (cases s) auto
  obtain u d where u: "s = u @ [d]" using assms(1) by (cases s rule: rev_cases) auto
  have c: "\<not> is_space c" using assms(2) s by simp
  have d: "\<not> is_space d" using assms(3) u by simp
  have 1: "collapse_ws s \<noteq> [] \<and> hd (collapse_ws s) = hd s"
    unfolding s using c by simp
  have 2: "last (collapse_ws s) = last s"
    unfolding u by (simp add: collapse_ws_snoc[OF d])
  show ?thesis using 1 2 by blast
qed

lemma dropWhile_mid:
  "m \<noteq> [] \<Longrightarrow> \<not> P (hd m) \<Longrightarrow> \<exists>a'. dropWhile P (a @ m @ b) = a' @ m @ b"
proof (induction a)
  case Nil
  then have "dropWhile P (m @ b) = m @ b" by (intro dropWhile_hd) simp
  then show ?case by simp
next
  case (Cons x a)
  then show ?case by (cases "P x") auto
qed

lemma trim_mid:
  assumes "m \<noteq> []" "\<not> is_space (hd m)" "\<not> is_space (last m)"
  shows "\<exists>p q. trim (a @ m @ b) = p @ m @ q"
proof -
  obtain a' where 1: "dropWhile is_space (a @ m @ b) = a' @ m @ b"
    using dropWhile_mid[of m is_space a b] assms(1,2) by blast
  have "rev m \<noteq> []" "\<not> is_space (hd (rev m))" using assms(1,3) by (simp_all add: hd_rev)
  then obtain b' where 2: "dropWhile is_space (rev b @ rev m @ rev a') = b' @ rev m @ rev a'"
    using dropWhile_mid[of "rev m" is_space "rev b" "rev a'"] by blast
  have "trim (a @ m @ b) = a' @ m @ rev b'"
    by (simp add: trim_def 1 2)
  then show ?thesis by blast
qed

lemma trim_suffix:
  assumes "m \<noteq> []" "\<not> is_space (hd m)" "\<not> is_space (last m)"
  shows "\<exists>p. trim (a @ m) = p @ m"
proof -
  obtain a' where 1: "dropWhile is_space (a @ m) = a' @ m"
    using dropWhile_mid[of m is_space a "[]"] assms(1,2) by auto
  have "dropWhile is_space (rev m @ rev a') = rev m @ rev a'"
    using assms(1,3) by (intro dropWhile_hd) (simp add: hd_rev)
  then have "trim (a @ m) = a' @ m" by (simp add: trim_def 1)
  then show ?thesis by blast
qed

lemma join_contains: "s \<in> set xs \<Longrightarrow> \<exists>A B. join sep xs = A @ s @ B"
proof (induction sep xs rule: join.induct)
  case (1 sep)
  then show ?case by simp
next
  case (2 sep x)
  then have "join sep [x] = [] @ s @ []" by simp
  then show ?case by blast
next
  case (3 sep x y ys)
  show ?case
  proof (cases "s = x")
    case True
    then have "join sep (x # y # ys) = [] @ s @ (sep @ join sep (y # ys))" by simp
    then show ?thesis by blast
  next
    case False
    then obtain A B where "join sep (y # ys) = A @ s @ B" using 3 by auto
    then have "join sep (x # y # ys) = (x @ sep @ A) @ s @ B" by simp
    then show ?thesis by blast
  qed
qed

lemma phrase_facts:
  "js ''perfume with price'' \<noteq> []" "\<not> is_space (hd (js ''perfume with price''))"
  "\<not> is_space (last (js ''perfume with price''))"
  "collapse_ws (js ''perfume with price'') = js ''perfume with price''"
  "js '' perfume with price'' = [space] @ js ''perfume with price''"
  "length (js ''perfume with price'') = 18"
  by code_simp+

lemma first_query_suffix: "\<exists>p. first_query n = p @ js ''perfume with price''"
proof -
  let ?w = "js ''perfume with price''"
  define Y where "Y = join [space] (take 3 (or_empty (top n))) @ [space] @
     join [space] (take 3 (or_empty (middle n))) @ [space] @
     join [space] (take 3 (or_empty (base n))) @ [space]"
  have "first_query n = trim (collapse_ws (Y @ ?w @ []))"
    by (simp add: first_query_def Let_def Y_def phrase_facts(5) del: js_simps)
  also have "collapse_ws (Y @ ?w @ []) = collapse_ws Y @ ?w"
    using collapse_ws_mid[OF phrase_facts(1-3), of Y "[]"] by (simp add: phrase_facts(4) del: js_simps)
  finally show ?thesis using trim_suffix[OF phrase_facts(1-3)] by simp
qed

lemma query_is_first_query: "buildPerfumeQueryFromNotes n = first_query n"
proof -
  obtain p where "first_query n = p @ js ''perfume with price''"
    using first_query_suffix by blast
  then have "length (first_query n) \<ge> 18" by (simp add: phrase_facts(6) del: js_simps)
  then show ?thesis by (simp add: buildPerfumeQueryFromNotes_def Let_def del: js_simps)
qed

lemma first_query_contains:
  assumes "s \<in> set (take 3 (or_empty (top n)) @ take 3 (or_empty (middle n)) @
                    take 3 (or_empty (base n)))"
    "s \<noteq> []" "trim s = s"
  shows "sublist (collapse_ws s) (first_query n)"
proof -
  let ?t = "join [space] (take 3 (or_empty (top n)))"
  let ?m = "join [space] (take 3 (or_empty (middle n)))"
  let ?b = "join [space] (take 3 (or_empty (base n)))"
  let ?X = "?t @ [space] @ ?m @ [space] @ ?b @ js '' perfume with price''"
  have e: "\<not> is_space (hd s)" "\<not> is_space (last s)"
    using trim_ends[of s] assms(2,3) by simp_all
  have "\<exists>A B. ?X = A @ s @ B"
  proof -
    consider "s \<in> set (take 3 (or_empty (top n)))" | "s \<in> set (take 3 (or_empty (middle n)))"
      | "s \<in> set (take 3 (or_empty (base n)))" using assms(1) by auto
    then show ?thesis
    proof cases
      case 1
      then obtain A B where "?t = A @ s @ B" using join_contains by blast
      then have "?X = A @ s @ (B @ [space] @ ?m @ [space] @ ?b @ js '' perfume with price'')"
        by (simp del: js_simps)
      then show ?thesis by blast
    next
      case 2
      then obtain A B where "?m = A @ s @ B" using join_contains by blast
      then have "?X = (?t @ [space] @ A) @ s @ (B @ [space] @ ?b @ js '' perfume with price'')"
        by (simp del: js_simps)
      then show ?thesis by blast
    next
      case 3
      then obtain A B where "?b = A @ s @ B" using join_contains by blast
      then have "?X = (?t @ [space] @ ?m @ [space] @ A) @ s @ (B @ js '' perfume with price'')"
        by (simp del: js_simps)
      then show ?thesis by blast
    qed
  qed
  then obtain A B where X: "?X = A @ s @ B" by blast
  have "collapse_ws ?X = collapse_ws A @ collapse_ws s @ collapse_ws B"
    unfolding X using collapse_ws_mid[OF assms(2) e] by blast
  moreover obtain p q where
    "trim (collapse_ws A @ collapse_ws s @ collapse_ws B) = p @ collapse_ws s @ q"
    using trim_mid[of "collapse_ws s" "collapse_ws A" "collapse_ws B"]
      collapse_ws_ends[OF assms(2) e] e by auto
  ultimately have "first_query n = p @ collapse_ws s @ q"
    by (simp add: first_query_def Let_def del: js_simps)
  then show ?thesis unfolding sublist_def by blast
qed

lemma first_note_in:
  assumes "is_note_set n" "first_note n = Some s"
  shows "s \<in> set (take 3 (or_empty (top n)) @ take 3 (or_empty (middle n)) @
                  take 3 (or_empty (base n))) \<and> s \<noteq> [] \<and> trim s = s"
proof -
  obtain t m b where n: "top n = Some t" "middle n = Some m" "base n = Some b"
    and all: "list_all (\<lambda>s. s \<noteq> [] \<and> trim s = s) (t @ m @ b)"
    using assms(1) by (auto simp: is_note_set_def split: option.splits)
  from assms(2) obtain r where r: "t @ m @ b = s # r"
    by (auto simp: first_note_def or_empty_def n split: list.splits)
  then have "s \<noteq> [] \<and> trim s = s" using all by simp
  moreover have "s \<in> set (take 3 t @ take 3 m @ take 3 b)"
  proof (cases t)
    case (Cons x t')
    then show ?thesis using r by simp
  next
    case Nil
    show ?thesis
    proof (cases m)
      case (Cons x m')
      then show ?thesis using r Nil by simp
    next
      case mn: Nil
      then obtain b' where "b = s # b'" using r Nil by simp
      then show ?thesis by simp
    qed
  qed
  ultimately show ?thesis by (simp add: or_empty_def n)
qed

section \<open>Properties of the Query Synthesizer\<close>

text \<open>
  C4, as stated, fails: the Note Set whose only note is \<open>sea  salt\<close>, with two spaces (the
  line heuristic leaves it so when it strips the hyphen of \<open>sea - salt\<close>), gives the query
  \<open>sea salt perfume with price\<close>, which does not contain the note.
\<close>

theorem query_contains_note_counterexample:
  "is_note_set \<lparr>top = Some [js ''sea  salt''], middle = Some [], base = Some []\<rparr>
   \<and> buildPerfumeQueryFromNotes \<lparr>top = Some [js ''sea  salt''], middle = Some [], base = Some []\<rparr>
       = js ''sea salt perfume with price''
   \<and> \<not> sublist (js ''sea  salt'') (js ''sea salt perfume with price'')"
  by code_simp

text \<open>
  C4, amended: the query is the first three entries of top, middle and base joined with
  the phrase \<open>perfume with price\<close>, white space collapsed and trimmed. It always ends with
  that phrase, so it has at least 18 characters, the test for fewer than 10 never
  succeeds and the fallback is never taken; the query is never empty. It contains the
  white-space-collapsed form of each of the first three entries of every bucket that is
  trimmed and not empty, so for a Note Set with a note it contains the collapsed form of
  the first note.
\<close>

theorem buildPerfumeQuery_contains_notes:
  "buildPerfumeQueryFromNotes n = first_query n
   \<and> suffix (js ''perfume with price'') (buildPerfumeQueryFromNotes n)
   \<and> 18 \<le> length (buildPerfumeQueryFromNotes n)
   \<and> buildPerfumeQueryFromNotes n \<noteq> []
   \<and> (s \<in> set (take 3 (or_empty (top n)) @ take 3 (or_empty (middle n)) @
                 take 3 (or_empty (base n))) \<and> s \<noteq> [] \<and> trim s = s
        \<longrightarrow> sublist (collapse_ws s) (buildPerfumeQueryFromNotes n))
   \<and> (is_note_set n \<and> first_note n = Some s
        \<longrightarrow> sublist (collapse_ws s) (buildPerfumeQueryFromNotes n))
   \<and> buildPerfumeQueryFromNotes
        \<lparr>top = Some [js ''bergamot'', js ''lemon''], middle = Some [], base = Some [js ''musk'']\<rparr>
       = js ''bergamot lemon musk perfume with price''
   \<and> buildPerfumeQueryFromNotes \<lparr>top = Some [], middle = Some [], base = Some []\<rparr>
       = js ''perfume with price''"
proof -
  obtain p where p: "first_query n = p @ js ''perfume with price''"
    using first_query_suffix by blast
  have q: "buildPerfumeQueryFromNotes n = first_query n" by (rule query_is_first_query)
  have 1: "suffix (js ''perfume with price'') (buildPerfumeQueryFromNotes n)"
    unfolding q p suffix_def by blast
  have 2: "18 \<le> length (buildPerfumeQueryFromNotes n)"
    unfolding q p by (simp add: phrase_facts(6) del: js_simps)
  then have 3: "buildPerfumeQueryFromNotes n \<noteq> []" by auto
  have 4: "s \<in> set (take 3 (or_empty (top n)) @ take 3 (or_empty (middle n)) @
                 take 3 (or_empty (base n))) \<and> s \<noteq> [] \<and> trim s = s
        \<longrightarrow> sublist (collapse_ws s) (buildPerfumeQueryFromNotes n)"
    unfolding q using first_query_contains[of s n] by blast
  have 5: "is_note_set n \<and> first_note n = Some s
        \<longrightarrow> sublist (collapse_ws s) (buildPerfumeQueryFromNotes n)"
    unfolding q using first_note_in[of n s] first_query_contains[of s n] by blast
  have 6: "buildPerfumeQueryFromNotes
        \<lparr>top = Some [js ''bergamot'', js ''lemon''], middle = Some [], base = Some [js ''musk'']\<rparr>
       = js ''bergamot lemon musk perfume with price''"
    by code_simp
  have 7: "buildPerfumeQueryFromNotes \<lparr>top = Some [], middle = Some [], base = Some []\<rparr>
       = js ''perfume with price''"
    by code_simp
  show ?thesis using q 1 2 3 4 5 6 7 by blast
qed

theorem buildPerfumeQuery_contains_notes_witness:
  "is_note_set \<lparr>top = Some [js ''sea  salt'', js ''lemon''], middle = Some [],
                base = Some [js ''musk'']\<rparr>
   \<and> first_note \<lparr>top = Some [js ''sea  salt'', js ''lemon''], middle = Some [],
                  base = Some [js ''musk'']\<rparr> = Some (js ''sea  salt'')
   \<and> collapse_ws (js ''sea  salt'') = js ''sea salt''
   \<and> sublist (js ''sea salt'')
        (buildPerfumeQueryFromNotes \<lparr>top = Some [js ''sea  salt'', js ''lemon''], middle = Some [],
                                     base = Some [js ''musk'']\<rparr>)
   \<and> buildPerfumeQueryFromNotes \<lparr>top = Some [js ''sea  salt'', js ''lemon''], middle = Some [],
                                  base = Some [js ''musk'']\<rparr>
       = js ''sea salt lemon musk perfume with price''"
proof -
  let ?n = "\<lparr>top = Some [js ''sea  salt'', js ''lemon''], middle = Some [],
             base = Some [js ''musk'']\<rparr>"
  have a: "is_note_set ?n" "first_note ?n = Some (js ''sea  salt'')"
    "collapse_ws (js ''sea  salt'') = js ''sea salt''"
    "buildPerfumeQueryFromNotes ?n = js ''sea salt lemon musk perfume with price''"
    by code_simp+
  have "sublist (collapse_ws (js ''sea  salt'')) (buildPerfumeQueryFromNotes ?n)"
    using buildPerfumeQuery_contains_notes[of ?n "js ''sea  salt''"] a(1,2) by blast
  then show ?thesis using a by (simp del: js_simps)
qed

end
